theory Spec2Isabelle
  imports Main
begin

section \<open>The buffer decoration renderer\<close>

text \<open>
  A shallow embedding of \<^verbatim>\<open>src/browser/Decorations/BufferDecorationRenderer.ts\<close>.

  The renderer keeps a map from decorations to DOM elements, a container element the
  mapped elements are children of, the handle of a requested animation frame and a flag
  for the alternate buffer. Decorations, markers and elements are JavaScript objects that
  several places refer to (the map, the container's child list and the decoration's own
  \<^verbatim>\<open>element\<close> slot all point at one element), so objects live in stores indexed by
  references and every method is a function from state to state.

  JavaScript numbers are modelled as integers: cell counts, line numbers and pixel sizes.
  A CSS length written by the code as \<^verbatim>\<open>`${n}px`\<close> is the number \<open>n\<close>; the empty string
  of an unset style property is \<open>None\<close>.
\<close>

subsection \<open>Objects\<close>

type_synonym decoration_ref = nat
type_synonym marker_ref = nat
type_synonym element_ref = nat

datatype anchor = AnchorLeft | AnchorRight

text \<open>\<^verbatim>\<open>IDecorationOptions\<close>: every field is optional (\<open>None\<close> is \<^verbatim>\<open>undefined\<close>).\<close>

record options =
  options_width :: "int option"
  options_height :: "int option"
  options_x :: "int option"
  options_anchor :: "anchor option"

text \<open>
  What a listener on a decoration's render emitter does, as far as the renderer can see
  it: it either ends in a refresh request (it registers a decoration, say, and the
  registry's notification calls \<^verbatim>\<open>_queueRefresh\<close>), or it only fills in the
  element's contents, which are not part of this model.
\<close>

datatype render_listener = RequestsRefresh | CustomizesContent

text \<open>
  \<^verbatim>\<open>IInternalDecoration\<close>. The listeners the renderer installs with
  \<^verbatim>\<open>decoration.onDispose(() => this._removeDecoration(decoration))\<close> are closures over
  a decoration; each is kept as the reference it captured. \<open>disposeFired\<close> counts the
  firings of the disposal emitter.
\<close>

record decoration =
  marker :: marker_ref
  options :: options
  element :: "element_ref option"
  isDisposed :: bool
  onDispose :: "decoration_ref list"
  onRender :: "render_listener list"
  disposeFired :: nat

text \<open>
  \<^verbatim>\<open>IMarker\<close>. The listeners installed with
  \<^verbatim>\<open>decoration.marker.onDispose(() => decoration.dispose())\<close> are kept as the
  decorations they dispose.
\<close>

record marker_obj =
  line :: int
  marker_isDisposed :: bool
  marker_onDispose :: "decoration_ref list"

datatype display = DisplayUnset | DisplayNone | DisplayBlock

text \<open>An \<^verbatim>\<open>HTMLElement\<close>: its class list and the style properties the renderer writes.\<close>

record element_obj =
  classList :: "string list"
  style_width :: "int option"
  style_height :: "int option"
  style_top :: "int option"
  style_lineHeight :: "int option"
  style_display :: display
  style_left :: "int option"
  style_right :: "int option"

definition document_createElement :: element_obj where
  "document_createElement =
     \<lparr>classList = [], style_width = None, style_height = None, style_top = None,
      style_lineHeight = None, style_display = DisplayUnset, style_left = None,
      style_right = None\<rparr>"

subsection \<open>Services and renderer state\<close>

text \<open>
  \<^verbatim>\<open>IBufferService\<close>: \<open>ydisp\<close> is \<^verbatim>\<open>buffers.active.ydisp\<close>, and \<open>bufferIsAlt\<close> is
  the value of \<^verbatim>\<open>buffer === buffers.alt\<close>.
\<close>

record bufferService =
  cols :: int
  rows :: int
  ydisp :: int
  bufferIsAlt :: bool

text \<open>\<^verbatim>\<open>IRenderService.dimensions\<close>.\<close>

record renderService =
  actualCellWidth :: int
  actualCellHeight :: int

text \<open>
  The renderer's fields (\<open>container\<close> is the child list of \<^verbatim>\<open>_container\<close>), the
  services it reads, the object stores, and the window's list of requested animation
  frame callbacks. Every callback the renderer requests is the same closure, so the list
  holds the handles only. \<open>refreshCount\<close> is instrumentation: it counts the executions
  of \<^verbatim>\<open>refreshDecorations\<close>.
\<close>

record renderer =
  container :: "element_ref list"
  decorationElements :: "decoration_ref \<rightharpoonup> element_ref"
  animationFrame :: "nat option"
  altBufferIsActive :: bool
  bufferService :: bufferService
  renderService :: renderService
  decorations :: "decoration_ref list"
  decorationStore :: "decoration_ref \<Rightarrow> decoration"
  markerStore :: "marker_ref \<Rightarrow> marker_obj"
  elementStore :: "element_ref \<Rightarrow> element_obj"
  nextElement :: element_ref
  frameCallbacks :: "nat list"
  nextHandle :: nat
  refreshCount :: nat

subsection \<open>JavaScript operators on optional numbers\<close>

text \<open>\<^verbatim>\<open>v || d\<close>: the default replaces every falsy value, \<^verbatim>\<open>undefined\<close> and \<open>0\<close>.\<close>

definition js_or :: "int option \<Rightarrow> int \<Rightarrow> int" where
  "js_or v d = (case v of None \<Rightarrow> d | Some n \<Rightarrow> if n = 0 then d else n)"

text \<open>\<^verbatim>\<open>v ?? d\<close>: the default replaces \<^verbatim>\<open>undefined\<close> only.\<close>

definition js_nullish :: "int option \<Rightarrow> int \<Rightarrow> int" where
  "js_nullish v d = (case v of None \<Rightarrow> d | Some n \<Rightarrow> n)"

subsection \<open>Scheduling\<close>

text \<open>
  \<^verbatim>\<open>_queueRefresh\<close>: returns at once when a frame is requested; otherwise requests
  one and keeps its handle.
\<close>

definition queueRefresh :: "renderer \<Rightarrow> renderer" where
  "queueRefresh s =
     (if animationFrame s \<noteq> None then s
      else s\<lparr>animationFrame := Some (nextHandle s),
             frameCallbacks := frameCallbacks s @ [nextHandle s],
             nextHandle := Suc (nextHandle s)\<rparr>)"

subsection \<open>Element creation and style\<close>

text \<open>
  The setter of \<^verbatim>\<open>style.width\<close> and \<^verbatim>\<open>style.height\<close>: CSS has no negative width or
  height, so an assignment of a negative length is refused and the property keeps the
  value it had; any other length is stored.
\<close>

definition set_nonnegative_length :: "int option \<Rightarrow> int \<Rightarrow> int option" where
  "set_nonnegative_length old n = (if n < 0 then old else Some n)"

text \<open>
  \<^verbatim>\<open>_createElement\<close>: allocates a fresh element, writes its geometry and returns its
  reference.
\<close>

definition createElement :: "decoration_ref \<Rightarrow> renderer \<Rightarrow> element_ref \<times> renderer" where
  "createElement d s =
     (let dec = decorationStore s d;
          dims = renderService s;
          e1 = document_createElement\<lparr>classList := [''xterm-decoration'']\<rparr>;
          e2 = e1\<lparr>style_width := set_nonnegative_length (style_width e1)
                    (js_or (options_width (options dec)) 1 * actualCellWidth dims)\<rparr>;
          e3 = e2\<lparr>style_height := set_nonnegative_length (style_height e2)
                    (js_or (options_height (options dec)) 1 * actualCellHeight dims)\<rparr>;
          e4 = e3\<lparr>style_top := Some ((line (markerStore s (marker dec)) - ydisp (bufferService s))
                                     * actualCellHeight dims)\<rparr>;
          e5 = e4\<lparr>style_lineHeight := Some (actualCellHeight dims)\<rparr>;
          x = js_nullish (options_x (options dec)) 0;
          e6 = (if x \<noteq> 0 \<and> x > cols (bufferService s)
                then e5\<lparr>style_display := DisplayNone\<rparr> else e5);
          e7 = (if (case options_anchor (options dec) of None \<Rightarrow> AnchorLeft | Some a \<Rightarrow> a) = AnchorRight
                then e6\<lparr>style_right := (if x \<noteq> 0 then Some (x * actualCellWidth dims) else None)\<rparr>
                else e6\<lparr>style_left := (if x \<noteq> 0 then Some (x * actualCellWidth dims) else None)\<rparr>)
      in (nextElement s,
          s\<lparr>elementStore := (elementStore s)(nextElement s := e7),
            nextElement := Suc (nextElement s)\<rparr>))"

text \<open>\<^verbatim>\<open>_refreshStyle\<close>.\<close>

definition refreshStyle :: "decoration_ref \<Rightarrow> element_ref \<Rightarrow> renderer \<Rightarrow> renderer" where
  "refreshStyle d e s =
     (let ln = line (markerStore s (marker (decorationStore s d))) - ydisp (bufferService s);
          el = elementStore s e
      in if ln < 0 \<or> ln \<ge> rows (bufferService s)
         then s\<lparr>elementStore := (elementStore s)(e := el\<lparr>style_display := DisplayNone\<rparr>)\<rparr>
         else s\<lparr>elementStore := (elementStore s)
                  (e := el\<lparr>style_top := Some (ln * actualCellHeight (renderService s)),
                           style_display := (if altBufferIsActive s then DisplayNone
                                             else DisplayBlock)\<rparr>)\<rparr>)"

subsection \<open>Removal\<close>

text \<open>
  \<^verbatim>\<open>_removeDecoration\<close>: \<^verbatim>\<open>get(decoration)?.remove()\<close> detaches the mapped element,
  if there is one, from its parent; then the map entry is deleted.
\<close>

definition removeDecoration :: "decoration_ref \<Rightarrow> renderer \<Rightarrow> renderer" where
  "removeDecoration d s =
     (let s1 = (case decorationElements s d of
                  None \<Rightarrow> s
                | Some e \<Rightarrow> s\<lparr>container := removeAll e (container s)\<rparr>)
      in s1\<lparr>decorationElements := (decorationElements s1)(d := None)\<rparr>)"

subsection \<open>The refresh pass\<close>

text \<open>\<^verbatim>\<open>decoration.onRenderEmitter.fire(element)\<close>: runs the decoration's render listeners.\<close>

fun run_listener :: "render_listener \<Rightarrow> renderer \<Rightarrow> renderer" where
  "run_listener RequestsRefresh s = queueRefresh s"
| "run_listener CustomizesContent s = s"

definition onRenderEmitter_fire :: "decoration_ref \<Rightarrow> element_ref \<Rightarrow> renderer \<Rightarrow> renderer" where
  "onRenderEmitter_fire d e s = fold run_listener (onRender (decorationStore s d)) s"

text \<open>
  \<^verbatim>\<open>_renderDecoration\<close>. An unmapped decoration gets a new element, the two disposal
  listeners, its \<^verbatim>\<open>element\<close> slot, a map entry and a place at the end of the
  container; \<^verbatim>\<open>appendChild\<close> moves a node that already is a child. Then, mapped before
  or not, the style is refreshed and the render emitter fires.
\<close>

definition renderDecoration :: "decoration_ref \<Rightarrow> renderer \<Rightarrow> renderer" where
  "renderDecoration d s =
     (case decorationElements s d of
        Some e \<Rightarrow> onRenderEmitter_fire d e (refreshStyle d e s)
      | None \<Rightarrow>
          (let (e, s1) = createElement d s;
               s2 = s1\<lparr>decorationStore := (decorationStore s1)
                         (d := (decorationStore s1 d)
                            \<lparr>onDispose := onDispose (decorationStore s1 d) @ [d]\<rparr>)\<rparr>;
               m = marker (decorationStore s2 d);
               s3 = s2\<lparr>markerStore := (markerStore s2)
                         (m := (markerStore s2 m)
                            \<lparr>marker_onDispose := marker_onDispose (markerStore s2 m) @ [d]\<rparr>)\<rparr>;
               s4 = s3\<lparr>decorationStore := (decorationStore s3)
                         (d := (decorationStore s3 d)\<lparr>element := Some e\<rparr>)\<rparr>;
               s5 = s4\<lparr>decorationElements := (decorationElements s4)(d \<mapsto> e)\<rparr>;
               s6 = s5\<lparr>container := removeAll e (container s5) @ [e]\<rparr>
           in onRenderEmitter_fire d e (refreshStyle d e s6)))"

text \<open>\<^verbatim>\<open>refreshDecorations\<close>: renders every decoration of the registry, in its order.\<close>

definition refreshDecorations :: "renderer \<Rightarrow> renderer" where
  "refreshDecorations s =
     fold renderDecoration (decorations s) (s\<lparr>refreshCount := Suc (refreshCount s)\<rparr>)"

text \<open>
  The closure \<^verbatim>\<open>_queueRefresh\<close> hands to \<^verbatim>\<open>requestAnimationFrame\<close>: the refresh
  pass first, the reset of \<^verbatim>\<open>_animationFrame\<close> after it.
\<close>

definition frameCallback :: "renderer \<Rightarrow> renderer" where
  "frameCallback s = (refreshDecorations s)\<lparr>animationFrame := None\<rparr>"

text \<open>
  The window at a display frame: it takes the callbacks requested so far, empties its
  list and runs them; a callback requested meanwhile waits for the next frame.
\<close>

definition animationFrameFires :: "renderer \<Rightarrow> renderer" where
  "animationFrameFires s =
     fold (\<lambda>h. frameCallback) (frameCallbacks s) (s\<lparr>frameCallbacks := []\<rparr>)"

subsection \<open>Construction and event wiring\<close>

text \<open>The notifications the constructor subscribes to.\<close>

datatype event =
    RenderedBufferChange
  | DimensionsChange
  | WindowResize
  | BufferActivate
  | DecorationRegistered
  | DecorationRemoved decoration_ref

fun handle :: "event \<Rightarrow> renderer \<Rightarrow> renderer" where
  "handle RenderedBufferChange s = queueRefresh s"
| "handle DimensionsChange s = queueRefresh s"
| "handle WindowResize s = queueRefresh s"
| "handle BufferActivate s = s\<lparr>altBufferIsActive := bufferIsAlt (bufferService s)\<rparr>"
| "handle DecorationRegistered s = queueRefresh s"
| "handle (DecorationRemoved d) s = removeDecoration d s"

text \<open>
  The state after the constructor: an empty container, an empty map, no frame
  requested, the flag false. The services, the registry's decorations and the objects
  they refer to are given; no element exists and the window has no callback.
\<close>

definition new_renderer ::
  "bufferService \<Rightarrow> renderService \<Rightarrow> decoration_ref list \<Rightarrow> (decoration_ref \<Rightarrow> decoration)
     \<Rightarrow> (marker_ref \<Rightarrow> marker_obj) \<Rightarrow> renderer" where
  "new_renderer bs rs ds dstore mstore =
     \<lparr>container = [], decorationElements = Map.empty, animationFrame = None,
      altBufferIsActive = False, bufferService = bs, renderService = rs,
      decorations = ds, decorationStore = dstore, markerStore = mstore,
      elementStore = (\<lambda>e. document_createElement), nextElement = 0,
      frameCallbacks = [], nextHandle = 0, refreshCount = 0\<rparr>"

subsection \<open>Disposal of decorations and markers\<close>

text \<open>
  Modelled from the spec: the \<^verbatim>\<open>dispose\<close> method of a decoration, whose class is not
  part of the source file. The spec gives a decoration a disposal signal that fires once
  and makes removal terminal, and has the registry own the live decorations and announce
  each removal. So a disposed decoration stays disposed; the first disposal fires the
  signal, which runs the listeners installed on it, and the registry drops the decoration
  and sends its decoration-removed notification.
\<close>

definition decoration_dispose :: "decoration_ref \<Rightarrow> renderer \<Rightarrow> renderer" where
  "decoration_dispose d s =
     (if isDisposed (decorationStore s d) then s
      else
        (let s1 = s\<lparr>decorationStore := (decorationStore s)
                      (d := (decorationStore s d)
                         \<lparr>isDisposed := True,
                          disposeFired := Suc (disposeFired (decorationStore s d))\<rparr>)\<rparr>;
             s2 = fold removeDecoration (onDispose (decorationStore s1 d)) s1;
             s3 = s2\<lparr>decorations := removeAll d (decorations s2)\<rparr>
         in handle (DecorationRemoved d) s3))"

text \<open>
  Modelled from the spec: the \<^verbatim>\<open>dispose\<close> method of a marker, whose class is not
  part of the source file. The spec has a marker signal its invalidation; the signal runs
  the listeners installed on the marker, once.
\<close>

definition marker_dispose :: "marker_ref \<Rightarrow> renderer \<Rightarrow> renderer" where
  "marker_dispose m s =
     (if marker_isDisposed (markerStore s m) then s
      else
        (let s1 = s\<lparr>markerStore := (markerStore s)
                      (m := (markerStore s m)\<lparr>marker_isDisposed := True\<rparr>)\<rparr>
         in fold decoration_dispose (marker_onDispose (markerStore s1 m)) s1))"

subsection \<open>The pending-refresh token and the renderer's entry points\<close>

text \<open>
  The window holds a callback of the renderer exactly when \<^verbatim>\<open>_animationFrame\<close> is
  set, and never two.
\<close>

definition one_token :: "renderer \<Rightarrow> bool" where
  "one_token s \<longleftrightarrow>
     length (frameCallbacks s) = (if animationFrame s = None then 0 else 1)"

text \<open>
  What happens to a renderer in use: a notification it subscribed to, a display frame,
  a call of the public \<^verbatim>\<open>refreshDecorations\<close>, the disposal of a decoration or of
  a marker, and what its collaborators do on their own. Modelled from the spec: the
  registry, which is not part of the source file, adds a registered decoration to its
  decorations and sends the decoration-registered notification; the buffer and the
  dimensions change as the services say.
\<close>

datatype action =
    Notify event
  | Frame
  | Refresh
  | DisposeDecoration decoration_ref
  | DisposeMarker marker_ref
  | Register decoration_ref
  | Environment bufferService renderService

fun step :: "action \<Rightarrow> renderer \<Rightarrow> renderer" where
  "step (Notify ev) s = handle ev s"
| "step Frame s = animationFrameFires s"
| "step Refresh s = refreshDecorations s"
| "step (DisposeDecoration d) s = decoration_dispose d s"
| "step (DisposeMarker m) s = marker_dispose m s"
| "step (Register d) s = handle DecorationRegistered (s\<lparr>decorations := decorations s @ [d]\<rparr>)"
| "step (Environment bs rs) s = s\<lparr>bufferService := bs, renderService := rs\<rparr>"

subsection \<open>A concrete renderer\<close>

definition example_buffer :: bufferService where
  "example_buffer = \<lparr>cols = 80, rows = 24, ydisp = 10, bufferIsAlt = False\<rparr>"

definition example_dimensions :: renderService where
  "example_dimensions = \<lparr>actualCellWidth = 9, actualCellHeight = 17\<rparr>"

definition no_options :: options where
  "no_options = \<lparr>options_width = None, options_height = None, options_x = None,
                  options_anchor = None\<rparr>"

text \<open>A registered decoration that was never rendered, on the marker of the same number.\<close>

definition new_decoration :: "decoration_ref \<Rightarrow> decoration" where
  "new_decoration d =
     \<lparr>marker = d, options = no_options, element = None, isDisposed = False,
      onDispose = [], onRender = [], disposeFired = 0\<rparr>"

text \<open>Marker \<open>m\<close> sits on line \<open>12 + m\<close>.\<close>

definition new_marker :: "marker_ref \<Rightarrow> marker_obj" where
  "new_marker m = \<lparr>line = 12 + int m, marker_isDisposed = False, marker_onDispose = []\<rparr>"

definition example_renderer :: renderer where
  "example_renderer =
     new_renderer example_buffer example_dimensions [0, 1] new_decoration new_marker"

text \<open>Decoration \<open>0\<close> has a render listener that requests a refresh.\<close>

definition reentrant_renderer :: renderer where
  "reentrant_renderer =
     new_renderer example_buffer example_dimensions [0]
       (\<lambda>d. (new_decoration d)\<lparr>onRender := [RequestsRefresh]\<rparr>) new_marker"

text \<open>Decoration \<open>0\<close> asks for a width and a height of zero cells.\<close>

definition zero_size_renderer :: renderer where
  "zero_size_renderer =
     new_renderer example_buffer example_dimensions [0]
       (\<lambda>d. (new_decoration d)
          \<lparr>options := no_options\<lparr>options_width := Some 0, options_height := Some 0\<rparr>\<rparr>)
       new_marker"

text \<open>Decoration \<open>0\<close> asks for a width of \<open>-2\<close> and a height of \<open>-3\<close> cells.\<close>

definition negative_size_renderer :: renderer where
  "negative_size_renderer =
     new_renderer example_buffer example_dimensions [0]
       (\<lambda>d. (new_decoration d)
          \<lparr>options := no_options\<lparr>options_width := Some (- 2), options_height := Some (- 3)\<rparr>\<rparr>)
       new_marker"

text \<open>
  Decoration \<open>0\<close> asks for column \<open>5\<close> of a buffer that has three columns; its marker is
  on line \<open>12\<close>, the third of the \<open>24\<close> rows shown from line \<open>10\<close> on.
\<close>

definition overflow_renderer :: renderer where
  "overflow_renderer =
     new_renderer (example_buffer\<lparr>cols := 3\<rparr>) example_dimensions [0]
       (\<lambda>d. (new_decoration d)\<lparr>options := no_options\<lparr>options_x := Some 5\<rparr>\<rparr>)
       new_marker"

text \<open>
  The example renderer after the alternate buffer has been activated: the buffer service
  has switched to the alternate buffer and the renderer has handled the notification.
\<close>

definition alt_renderer :: renderer where
  "alt_renderer =
     handle BufferActivate
       (example_renderer\<lparr>bufferService := example_buffer\<lparr>bufferIsAlt := True\<rparr>\<rparr>)"

subsection \<open>Invariants of the map and what a style refresh establishes\<close>

text \<open>
  Mapped elements have been created, and no two decorations share one: each element is
  created for the decoration it is mapped to.
\<close>

definition elements_distinct :: "renderer \<Rightarrow> bool" where
  "elements_distinct s \<longleftrightarrow>
     (\<forall>d e. decorationElements s d = Some e \<longrightarrow> e < nextElement s)
   \<and> (\<forall>d d' e. decorationElements s d = Some e \<and> decorationElements s d' = Some e
         \<longrightarrow> d = d')"

text \<open>The constant \<^verbatim>\<open>line\<close> of \<^verbatim>\<open>_refreshStyle\<close>: the decoration's line in the viewport.\<close>

definition viewportLine :: "renderer \<Rightarrow> decoration_ref \<Rightarrow> int" where
  "viewportLine s d =
     line (markerStore s (marker (decorationStore s d))) - ydisp (bufferService s)"

text \<open>Element \<open>e\<close> carries the style that \<^verbatim>\<open>_refreshStyle\<close> gives decoration \<open>d\<close>.\<close>

definition style_refreshed :: "renderer \<Rightarrow> decoration_ref \<Rightarrow> element_ref \<Rightarrow> bool" where
  "style_refreshed s d e \<longleftrightarrow>
     (if viewportLine s d < 0 \<or> rows (bufferService s) \<le> viewportLine s d
      then style_display (elementStore s e) = DisplayNone
      else style_top (elementStore s e)
             = Some (viewportLine s d * actualCellHeight (renderService s))
         \<and> style_display (elementStore s e)
             = (if altBufferIsActive s then DisplayNone else DisplayBlock))"

subsection \<open>A bound decoration and its disposal wiring\<close>

text \<open>
  Decoration \<open>d\<close> is bound to the created element \<open>e\<close>, a child of the container, and
  the two listeners of \<^verbatim>\<open>_renderDecoration\<close> are installed: the removal on the
  decoration's disposal and the decoration's disposal on its marker's.
\<close>

definition wired :: "renderer \<Rightarrow> decoration_ref \<Rightarrow> element_ref \<Rightarrow> bool" where
  "wired s d e \<longleftrightarrow>
     decorationElements s d = Some e \<and> e \<in> set (container s) \<and> e < nextElement s
   \<and> d \<in> set (onDispose (decorationStore s d))
   \<and> d \<in> set (marker_onDispose (markerStore s (marker (decorationStore s d))))"

subsection \<open>The invariants together\<close>

text \<open>
  At most one callback is outstanding, mapped elements are created and pairwise
  distinct, and only decorations of the registry are mapped.
\<close>

definition renderer_inv :: "renderer \<Rightarrow> bool" where
  "renderer_inv s \<longleftrightarrow>
     one_token s \<and> elements_distinct s
   \<and> dom (decorationElements s) \<subseteq> set (decorations s)"

section \<open>Properties\<close>


subsection \<open>What each operation leaves alone\<close>

lemma queueRefresh_pending: "animationFrame s \<noteq> None \<Longrightarrow> queueRefresh s = s"
  by (simp add: queueRefresh_def)

lemma queueRefresh_frame [simp]:
  "container (queueRefresh s) = container s"
  "decorationElements (queueRefresh s) = decorationElements s"
  "altBufferIsActive (queueRefresh s) = altBufferIsActive s"
  "bufferService (queueRefresh s) = bufferService s"
  "renderService (queueRefresh s) = renderService s"
  "decorations (queueRefresh s) = decorations s"
  "decorationStore (queueRefresh s) = decorationStore s"
  "markerStore (queueRefresh s) = markerStore s"
  "elementStore (queueRefresh s) = elementStore s"
  "nextElement (queueRefresh s) = nextElement s"
  "refreshCount (queueRefresh s) = refreshCount s"
  by (simp_all add: queueRefresh_def)

lemma run_listener_frame [simp]:
  "container (run_listener l s) = container s"
  "decorationElements (run_listener l s) = decorationElements s"
  "altBufferIsActive (run_listener l s) = altBufferIsActive s"
  "bufferService (run_listener l s) = bufferService s"
  "renderService (run_listener l s) = renderService s"
  "decorations (run_listener l s) = decorations s"
  "decorationStore (run_listener l s) = decorationStore s"
  "markerStore (run_listener l s) = markerStore s"
  "elementStore (run_listener l s) = elementStore s"
  "nextElement (run_listener l s) = nextElement s"
  "refreshCount (run_listener l s) = refreshCount s"
  by (cases l; simp)+

lemma fold_run_listener_frame [simp]:
  "container (fold run_listener ls s) = container s"
  "decorationElements (fold run_listener ls s) = decorationElements s"
  "altBufferIsActive (fold run_listener ls s) = altBufferIsActive s"
  "bufferService (fold run_listener ls s) = bufferService s"
  "renderService (fold run_listener ls s) = renderService s"
  "decorations (fold run_listener ls s) = decorations s"
  "decorationStore (fold run_listener ls s) = decorationStore s"
  "markerStore (fold run_listener ls s) = markerStore s"
  "elementStore (fold run_listener ls s) = elementStore s"
  "nextElement (fold run_listener ls s) = nextElement s"
  "refreshCount (fold run_listener ls s) = refreshCount s"
  by (induction ls arbitrary: s; simp)+

lemma fire_frame [simp]:
  "container (onRenderEmitter_fire d e s) = container s"
  "decorationElements (onRenderEmitter_fire d e s) = decorationElements s"
  "altBufferIsActive (onRenderEmitter_fire d e s) = altBufferIsActive s"
  "bufferService (onRenderEmitter_fire d e s) = bufferService s"
  "renderService (onRenderEmitter_fire d e s) = renderService s"
  "decorations (onRenderEmitter_fire d e s) = decorations s"
  "decorationStore (onRenderEmitter_fire d e s) = decorationStore s"
  "markerStore (onRenderEmitter_fire d e s) = markerStore s"
  "elementStore (onRenderEmitter_fire d e s) = elementStore s"
  "nextElement (onRenderEmitter_fire d e s) = nextElement s"
  "refreshCount (onRenderEmitter_fire d e s) = refreshCount s"
  by (simp_all add: onRenderEmitter_fire_def)

lemma fold_run_listener_pending:
  "animationFrame s \<noteq> None \<Longrightarrow> fold run_listener ls s = s"
proof (induction ls)
  case Nil
  show ?case by simp
next
  case (Cons l ls)
  have "run_listener l s = s"
    using Cons.prems by (cases l) (simp_all add: queueRefresh_pending)
  with Cons show ?case by simp
qed

lemma fire_pending: "animationFrame s \<noteq> None \<Longrightarrow> onRenderEmitter_fire d e s = s"
  by (simp add: onRenderEmitter_fire_def fold_run_listener_pending)

lemma refreshStyle_frame [simp]:
  "container (refreshStyle d e s) = container s"
  "decorationElements (refreshStyle d e s) = decorationElements s"
  "animationFrame (refreshStyle d e s) = animationFrame s"
  "altBufferIsActive (refreshStyle d e s) = altBufferIsActive s"
  "bufferService (refreshStyle d e s) = bufferService s"
  "renderService (refreshStyle d e s) = renderService s"
  "decorations (refreshStyle d e s) = decorations s"
  "decorationStore (refreshStyle d e s) = decorationStore s"
  "markerStore (refreshStyle d e s) = markerStore s"
  "nextElement (refreshStyle d e s) = nextElement s"
  "frameCallbacks (refreshStyle d e s) = frameCallbacks s"
  "nextHandle (refreshStyle d e s) = nextHandle s"
  "refreshCount (refreshStyle d e s) = refreshCount s"
  by (simp_all add: refreshStyle_def Let_def)

lemma refreshStyle_other:
  "e' \<noteq> e \<Longrightarrow> elementStore (refreshStyle d e s) e' = elementStore s e'"
  by (simp add: refreshStyle_def Let_def)

lemma createElement_fst [simp]: "fst (createElement d s) = nextElement s"
  by (simp add: createElement_def Let_def)

lemma createElement_frame [simp]:
  "container (snd (createElement d s)) = container s"
  "decorationElements (snd (createElement d s)) = decorationElements s"
  "animationFrame (snd (createElement d s)) = animationFrame s"
  "altBufferIsActive (snd (createElement d s)) = altBufferIsActive s"
  "bufferService (snd (createElement d s)) = bufferService s"
  "renderService (snd (createElement d s)) = renderService s"
  "decorations (snd (createElement d s)) = decorations s"
  "decorationStore (snd (createElement d s)) = decorationStore s"
  "markerStore (snd (createElement d s)) = markerStore s"
  "nextElement (snd (createElement d s)) = Suc (nextElement s)"
  "frameCallbacks (snd (createElement d s)) = frameCallbacks s"
  "nextHandle (snd (createElement d s)) = nextHandle s"
  "refreshCount (snd (createElement d s)) = refreshCount s"
  by (simp_all add: createElement_def Let_def)

lemma createElement_other:
  "e' \<noteq> nextElement s \<Longrightarrow> elementStore (snd (createElement d s)) e' = elementStore s e'"
  by (simp add: createElement_def Let_def)

lemma renderDecoration_frame [simp]:
  "altBufferIsActive (renderDecoration d s) = altBufferIsActive s"
  "bufferService (renderDecoration d s) = bufferService s"
  "renderService (renderDecoration d s) = renderService s"
  "decorations (renderDecoration d s) = decorations s"
  "refreshCount (renderDecoration d s) = refreshCount s"
  by (simp_all add: renderDecoration_def Let_def split_beta split: option.splits)

lemma renderDecoration_pending:
  "animationFrame s \<noteq> None \<Longrightarrow>
     animationFrame (renderDecoration d s) = animationFrame s
   \<and> frameCallbacks (renderDecoration d s) = frameCallbacks s
   \<and> nextHandle (renderDecoration d s) = nextHandle s"
  by (simp add: renderDecoration_def Let_def split_beta fire_pending split: option.splits)

lemma fold_renderDecoration_frame [simp]:
  "altBufferIsActive (fold renderDecoration ds s) = altBufferIsActive s"
  "bufferService (fold renderDecoration ds s) = bufferService s"
  "renderService (fold renderDecoration ds s) = renderService s"
  "decorations (fold renderDecoration ds s) = decorations s"
  "refreshCount (fold renderDecoration ds s) = refreshCount s"
  by (induction ds arbitrary: s; simp)+

lemma fold_renderDecoration_pending:
  "animationFrame s \<noteq> None \<Longrightarrow>
     animationFrame (fold renderDecoration ds s) = animationFrame s
   \<and> frameCallbacks (fold renderDecoration ds s) = frameCallbacks s
   \<and> nextHandle (fold renderDecoration ds s) = nextHandle s"
proof (induction ds arbitrary: s)
  case Nil
  show ?case by simp
next
  case (Cons d ds)
  from Cons.prems have r: "animationFrame (renderDecoration d s) = animationFrame s"
    "frameCallbacks (renderDecoration d s) = frameCallbacks s"
    "nextHandle (renderDecoration d s) = nextHandle s"
    using renderDecoration_pending [of s d] by simp_all
  with Cons.prems have "animationFrame (renderDecoration d s) \<noteq> None" by simp
  from Cons.IH [OF this] r show ?case by simp
qed

lemma removeDecoration_frame [simp]:
  "animationFrame (removeDecoration d s) = animationFrame s"
  "altBufferIsActive (removeDecoration d s) = altBufferIsActive s"
  "bufferService (removeDecoration d s) = bufferService s"
  "renderService (removeDecoration d s) = renderService s"
  "decorations (removeDecoration d s) = decorations s"
  "decorationStore (removeDecoration d s) = decorationStore s"
  "markerStore (removeDecoration d s) = markerStore s"
  "elementStore (removeDecoration d s) = elementStore s"
  "nextElement (removeDecoration d s) = nextElement s"
  "frameCallbacks (removeDecoration d s) = frameCallbacks s"
  "nextHandle (removeDecoration d s) = nextHandle s"
  "refreshCount (removeDecoration d s) = refreshCount s"
  by (simp_all add: removeDecoration_def Let_def split: option.splits)

lemma fold_removeDecoration_frame [simp]:
  "animationFrame (fold removeDecoration ds s) = animationFrame s"
  "altBufferIsActive (fold removeDecoration ds s) = altBufferIsActive s"
  "bufferService (fold removeDecoration ds s) = bufferService s"
  "renderService (fold removeDecoration ds s) = renderService s"
  "decorations (fold removeDecoration ds s) = decorations s"
  "decorationStore (fold removeDecoration ds s) = decorationStore s"
  "markerStore (fold removeDecoration ds s) = markerStore s"
  "elementStore (fold removeDecoration ds s) = elementStore s"
  "nextElement (fold removeDecoration ds s) = nextElement s"
  "frameCallbacks (fold removeDecoration ds s) = frameCallbacks s"
  "nextHandle (fold removeDecoration ds s) = nextHandle s"
  "refreshCount (fold removeDecoration ds s) = refreshCount s"
  by (induction ds arbitrary: s; simp)+

lemma decoration_dispose_frame [simp]:
  "animationFrame (decoration_dispose d s) = animationFrame s"
  "altBufferIsActive (decoration_dispose d s) = altBufferIsActive s"
  "bufferService (decoration_dispose d s) = bufferService s"
  "renderService (decoration_dispose d s) = renderService s"
  "markerStore (decoration_dispose d s) = markerStore s"
  "elementStore (decoration_dispose d s) = elementStore s"
  "nextElement (decoration_dispose d s) = nextElement s"
  "frameCallbacks (decoration_dispose d s) = frameCallbacks s"
  "nextHandle (decoration_dispose d s) = nextHandle s"
  "refreshCount (decoration_dispose d s) = refreshCount s"
  by (simp_all add: decoration_dispose_def Let_def)

lemma fold_decoration_dispose_frame [simp]:
  "animationFrame (fold decoration_dispose ds s) = animationFrame s"
  "altBufferIsActive (fold decoration_dispose ds s) = altBufferIsActive s"
  "bufferService (fold decoration_dispose ds s) = bufferService s"
  "renderService (fold decoration_dispose ds s) = renderService s"
  "markerStore (fold decoration_dispose ds s) = markerStore s"
  "elementStore (fold decoration_dispose ds s) = elementStore s"
  "nextElement (fold decoration_dispose ds s) = nextElement s"
  "frameCallbacks (fold decoration_dispose ds s) = frameCallbacks s"
  "nextHandle (fold decoration_dispose ds s) = nextHandle s"
  "refreshCount (fold decoration_dispose ds s) = refreshCount s"
  by (induction ds arbitrary: s; simp)+

lemma marker_dispose_frame [simp]:
  "animationFrame (marker_dispose m s) = animationFrame s"
  "altBufferIsActive (marker_dispose m s) = altBufferIsActive s"
  "bufferService (marker_dispose m s) = bufferService s"
  "renderService (marker_dispose m s) = renderService s"
  "elementStore (marker_dispose m s) = elementStore s"
  "nextElement (marker_dispose m s) = nextElement s"
  "frameCallbacks (marker_dispose m s) = frameCallbacks s"
  "nextHandle (marker_dispose m s) = nextHandle s"
  "refreshCount (marker_dispose m s) = refreshCount s"
  by (simp_all add: marker_dispose_def Let_def)

subsection \<open>Scheduling\<close>

lemma one_token_queueRefresh: "one_token s \<Longrightarrow> one_token (queueRefresh s)"
  by (auto simp add: one_token_def queueRefresh_def)

lemma queueRefresh_requested: "animationFrame (queueRefresh s) \<noteq> None"
  by (simp add: queueRefresh_def)

lemma queueRefresh_funpow:
  "0 < N \<Longrightarrow> (queueRefresh ^^ N) s = queueRefresh s"
proof (induction N)
  case 0
  then show ?case by simp
next
  case (Suc N)
  show ?case
  proof (cases "N = 0")
    case True
    then show ?thesis by simp
  next
    case False
    with Suc.IH have "(queueRefresh ^^ N) s = queueRefresh s" by simp
    then show ?thesis
      by (simp add: queueRefresh_pending queueRefresh_requested)
  qed
qed

text \<open>
  The scheduling fields after the render listeners depend on the scheduling fields
  before them only.
\<close>

lemma queueRefresh_sched_cong:
  assumes "animationFrame t = animationFrame s" "frameCallbacks t = frameCallbacks s"
    "nextHandle t = nextHandle s"
  shows "animationFrame (queueRefresh t) = animationFrame (queueRefresh s)
       \<and> frameCallbacks (queueRefresh t) = frameCallbacks (queueRefresh s)
       \<and> nextHandle (queueRefresh t) = nextHandle (queueRefresh s)"
  using assms by (simp add: queueRefresh_def)

lemma fold_run_listener_sched_cong:
  assumes "animationFrame t = animationFrame s" "frameCallbacks t = frameCallbacks s"
    "nextHandle t = nextHandle s"
  shows "animationFrame (fold run_listener ls t) = animationFrame (fold run_listener ls s)
       \<and> frameCallbacks (fold run_listener ls t) = frameCallbacks (fold run_listener ls s)
       \<and> nextHandle (fold run_listener ls t) = nextHandle (fold run_listener ls s)"
  using assms
proof (induction ls arbitrary: s t)
  case Nil
  then show ?case by simp
next
  case (Cons l ls)
  have "animationFrame (run_listener l t) = animationFrame (run_listener l s)
      \<and> frameCallbacks (run_listener l t) = frameCallbacks (run_listener l s)
      \<and> nextHandle (run_listener l t) = nextHandle (run_listener l s)"
    using Cons.prems queueRefresh_sched_cong [of t s] by (cases l) simp_all
  then show ?case using Cons.IH [of "run_listener l t" "run_listener l s"] by simp
qed

lemma fire_sched_cong:
  assumes "animationFrame t = animationFrame s" "frameCallbacks t = frameCallbacks s"
    "nextHandle t = nextHandle s"
    "onRender (decorationStore t d) = onRender (decorationStore s d)"
  shows "animationFrame (onRenderEmitter_fire d e t)
           = animationFrame (fold run_listener (onRender (decorationStore s d)) s)
       \<and> frameCallbacks (onRenderEmitter_fire d e t)
           = frameCallbacks (fold run_listener (onRender (decorationStore s d)) s)
       \<and> nextHandle (onRenderEmitter_fire d e t)
           = nextHandle (fold run_listener (onRender (decorationStore s d)) s)"
  unfolding onRenderEmitter_fire_def assms(4)
  using assms(1-3) by (rule fold_run_listener_sched_cong)

lemma renderDecoration_sched:
  "animationFrame (renderDecoration d s)
     = animationFrame (fold run_listener (onRender (decorationStore s d)) s)
   \<and> frameCallbacks (renderDecoration d s)
     = frameCallbacks (fold run_listener (onRender (decorationStore s d)) s)
   \<and> nextHandle (renderDecoration d s)
     = nextHandle (fold run_listener (onRender (decorationStore s d)) s)"
proof (cases "decorationElements s d")
  case None
  show ?thesis
    unfolding renderDecoration_def None option.case Let_def split_beta
    by (rule fire_sched_cong) simp_all
next
  case (Some e)
  show ?thesis
    unfolding renderDecoration_def Some option.case
    by (rule fire_sched_cong) simp_all
qed

lemma one_token_cong:
  "animationFrame t = animationFrame s \<Longrightarrow> frameCallbacks t = frameCallbacks s \<Longrightarrow>
     one_token t = one_token s"
  by (simp add: one_token_def)

lemma one_token_fold_run_listener:
  "one_token s \<Longrightarrow> one_token (fold run_listener ls s)"
proof (induction ls arbitrary: s)
  case Nil
  then show ?case by simp
next
  case (Cons l ls)
  have "one_token (run_listener l s)"
    using Cons.prems by (cases l) (simp_all add: one_token_queueRefresh)
  with Cons.IH show ?case by simp
qed

lemma one_token_renderDecoration:
  assumes "one_token s"
  shows "one_token (renderDecoration d s)"
proof -
  have "one_token (fold run_listener (onRender (decorationStore s d)) s)"
    using assms by (rule one_token_fold_run_listener)
  then show ?thesis
    using renderDecoration_sched [of d s] one_token_cong by blast
qed

lemma one_token_fold_renderDecoration:
  "one_token s \<Longrightarrow> one_token (fold renderDecoration ds s)"
  by (induction ds arbitrary: s) (simp_all add: one_token_renderDecoration)

lemma one_token_refreshDecorations: "one_token s \<Longrightarrow> one_token (refreshDecorations s)"
proof -
  assume "one_token s"
  then have "one_token (s\<lparr>refreshCount := Suc (refreshCount s)\<rparr>)"
    by (simp add: one_token_def)
  then show ?thesis
    unfolding refreshDecorations_def by (rule one_token_fold_renderDecoration)
qed

lemma refreshDecorations_pending:
  assumes "animationFrame s \<noteq> None"
  shows "animationFrame (refreshDecorations s) = animationFrame s
       \<and> frameCallbacks (refreshDecorations s) = frameCallbacks s
       \<and> nextHandle (refreshDecorations s) = nextHandle s"
  using assms
    fold_renderDecoration_pending [of "s\<lparr>refreshCount := Suc (refreshCount s)\<rparr>" "decorations s"]
  by (simp add: refreshDecorations_def)

lemma refreshDecorations_refreshCount:
  "refreshCount (refreshDecorations s) = Suc (refreshCount s)"
  by (simp add: refreshDecorations_def)

text \<open>A frame with one requested callback runs the refresh pass once and clears the handle.\<close>

lemma animationFrameFires_single:
  assumes "frameCallbacks s = [h]"
  shows "animationFrameFires s = frameCallback (s\<lparr>frameCallbacks := []\<rparr>)"
  using assms by (simp add: animationFrameFires_def)

lemma animationFrameFires_idle:
  assumes "frameCallbacks s = []"
  shows "animationFrameFires s = s"
  using assms by (simp add: animationFrameFires_def)

lemma one_token_cases:
  assumes "one_token s"
  obtains "animationFrame s = None" "frameCallbacks s = []"
  | h where "animationFrame s \<noteq> None" "frameCallbacks s = [h]"
proof (cases "animationFrame s = None")
  case True
  with assms have "frameCallbacks s = []" by (simp add: one_token_def)
  with True that show ?thesis by blast
next
  case False
  with assms have "length (frameCallbacks s) = 1" by (simp add: one_token_def)
  then obtain h where "frameCallbacks s = [h]"
    by (cases "frameCallbacks s") auto
  with False that show ?thesis by blast
qed

lemma animationFrameFires_pending:
  assumes "one_token s" "animationFrame s \<noteq> None"
  shows "animationFrame (animationFrameFires s) = None"
    and "frameCallbacks (animationFrameFires s) = []"
    and "refreshCount (animationFrameFires s) = Suc (refreshCount s)"
    and "nextHandle (animationFrameFires s) = nextHandle s"
proof -
  from assms obtain h where h: "frameCallbacks s = [h]"
    by (auto elim: one_token_cases)
  let ?t = "s\<lparr>frameCallbacks := []\<rparr>"
  have eq: "animationFrameFires s = frameCallback ?t"
    using h by (rule animationFrameFires_single)
  have p: "animationFrame ?t \<noteq> None" using assms(2) by simp
  show "animationFrame (animationFrameFires s) = None"
    by (simp add: eq frameCallback_def)
  show "frameCallbacks (animationFrameFires s) = []"
    using refreshDecorations_pending [OF p] by (simp add: eq frameCallback_def)
  show "refreshCount (animationFrameFires s) = Suc (refreshCount s)"
    by (simp add: eq frameCallback_def refreshDecorations_refreshCount)
  show "nextHandle (animationFrameFires s) = nextHandle s"
    using refreshDecorations_pending [OF p] by (simp add: eq frameCallback_def)
qed

lemma one_token_animationFrameFires:
  assumes "one_token s"
  shows "one_token (animationFrameFires s)"
  using assms
proof (cases rule: one_token_cases)
  case 1
  then show ?thesis using assms by (simp add: animationFrameFires_idle)
next
  case (2 h)
  then show ?thesis
    using animationFrameFires_pending(1,2) [OF assms] by (simp add: one_token_def)
qed

lemma one_token_handle: "one_token s \<Longrightarrow> one_token (handle ev s)"
  by (cases ev) (simp_all add: one_token_queueRefresh, simp_all add: one_token_def)

text \<open>
  C4. At most one refresh callback is outstanding. From a state that respects the token
  discipline, \<open>N \<ge> 1\<close> refresh requests in a row leave exactly one callback with the
  window; the next display frame then executes the refresh pass exactly once and leaves
  no callback behind, whatever the render listeners request meanwhile. A request made
  while a callback is pending changes nothing, and no notification, frame or refresh
  pass ever leaves more than one callback outstanding.
\<close>


theorem coalesced_refresh:
  assumes "one_token s" and "0 < N"
  shows "length (frameCallbacks ((queueRefresh ^^ N) s)) = 1
       \<and> refreshCount (animationFrameFires ((queueRefresh ^^ N) s)) = Suc (refreshCount s)
       \<and> frameCallbacks (animationFrameFires ((queueRefresh ^^ N) s)) = []
       \<and> (animationFrame s \<noteq> None \<longrightarrow> queueRefresh s = s)
       \<and> (\<forall>ev. length (frameCallbacks (handle ev s)) \<le> 1)
       \<and> length (frameCallbacks (animationFrameFires s)) \<le> 1
       \<and> length (frameCallbacks (refreshDecorations s)) \<le> 1"
proof -
  have q: "(queueRefresh ^^ N) s = queueRefresh s"
    using assms(2) by (rule queueRefresh_funpow)
  have t: "one_token (queueRefresh s)"
    using assms(1) by (rule one_token_queueRefresh)
  have p: "animationFrame (queueRefresh s) \<noteq> None"
    by (rule queueRefresh_requested)
  have "length (frameCallbacks (queueRefresh s)) = 1"
    using t p by (simp add: one_token_def)
  moreover have "refreshCount (animationFrameFires (queueRefresh s)) = Suc (refreshCount s)"
    using animationFrameFires_pending(3) [OF t p] by simp
  moreover have "frameCallbacks (animationFrameFires (queueRefresh s)) = []"
    using animationFrameFires_pending(2) [OF t p] .
  moreover have "animationFrame s \<noteq> None \<longrightarrow> queueRefresh s = s"
    by (simp add: queueRefresh_pending)
  moreover have "\<forall>ev. length (frameCallbacks (handle ev s)) \<le> 1"
  proof
    fix ev
    have "one_token (handle ev s)" using assms(1) by (rule one_token_handle)
    then show "length (frameCallbacks (handle ev s)) \<le> 1" by (simp add: one_token_def)
  qed
  moreover have "length (frameCallbacks (animationFrameFires s)) \<le> 1"
    using one_token_animationFrameFires [OF assms(1)] by (simp add: one_token_def)
  moreover have "length (frameCallbacks (refreshDecorations s)) \<le> 1"
    using one_token_refreshDecorations [OF assms(1)] by (simp add: one_token_def)
  ultimately show ?thesis by (simp add: q)
qed


theorem coalesced_refresh_witness:
  "one_token example_renderer \<and> (0::nat) < 3
   \<and> length (frameCallbacks ((queueRefresh ^^ 3) example_renderer)) = 1
   \<and> refreshCount (animationFrameFires ((queueRefresh ^^ 3) example_renderer)) = 1
   \<and> frameCallbacks (animationFrameFires ((queueRefresh ^^ 3) example_renderer)) = []"
proof -
  have h: "one_token example_renderer"
    by (simp add: one_token_def example_renderer_def new_renderer_def)
  have r: "refreshCount example_renderer = 0"
    by (simp add: example_renderer_def new_renderer_def)
  show ?thesis
    using h coalesced_refresh [OF h, of 3] by (simp add: r)
qed

lemmas example_defs =
  example_renderer_def new_renderer_def example_buffer_def example_dimensions_def
  new_decoration_def new_marker_def no_options_def document_createElement_def

lemmas operation_defs =
  queueRefresh_def createElement_def refreshStyle_def removeDecoration_def
  onRenderEmitter_fire_def renderDecoration_def refreshDecorations_def frameCallback_def
  animationFrameFires_def js_or_def js_nullish_def set_nonnegative_length_def

text \<open>
  C1, as stated, fails. Decoration \<open>0\<close> of \<open>reentrant_renderer\<close> has a render listener that
  requests a refresh. Run outside a frame callback, the refresh pass lets that request
  through and one callback is scheduled. Run by the frame callback, the same pass finds
  \<^verbatim>\<open>_animationFrame\<close> still set, the request returns at the guard, and after the frame
  no execution at all is scheduled.
\<close>

theorem reentrant_request_dropped:
  "frameCallbacks (refreshDecorations reentrant_renderer) = [0]
   \<and> length (frameCallbacks (queueRefresh reentrant_renderer)) = 1
   \<and> frameCallbacks (animationFrameFires (queueRefresh reentrant_renderer)) = []
   \<and> refreshCount (animationFrameFires (queueRefresh reentrant_renderer)) = 1"
  by (simp add: reentrant_renderer_def example_defs operation_defs)

text \<open>
  C1, amended. The frame callback clears the pending-refresh marker after the refresh
  body, not before it. While a callback is pending the body leaves the marker set and
  the window's callbacks as they are, so a request made from inside the body schedules
  nothing; the marker is clear when the callback has returned, no callback is left after
  the frame, and the next request schedules exactly one.
\<close>

theorem reentrant_request_absorbed:
  assumes "one_token s" and "animationFrame s \<noteq> None"
  shows "animationFrame (refreshDecorations s) = animationFrame s
       \<and> frameCallbacks (refreshDecorations s) = frameCallbacks s
       \<and> animationFrame (frameCallback s) = None
       \<and> frameCallbacks (animationFrameFires s) = []
       \<and> length (frameCallbacks (queueRefresh (animationFrameFires s))) = 1"
proof -
  have "animationFrame (frameCallback s) = None"
    by (simp add: frameCallback_def)
  moreover have "length (frameCallbacks (queueRefresh (animationFrameFires s))) = 1"
    using animationFrameFires_pending(1,2) [OF assms] by (simp add: queueRefresh_def)
  ultimately show ?thesis
    using refreshDecorations_pending [OF assms(2)] animationFrameFires_pending(2) [OF assms]
    by simp
qed

theorem reentrant_request_absorbed_witness:
  "one_token (queueRefresh reentrant_renderer)
   \<and> animationFrame (queueRefresh reentrant_renderer) \<noteq> None
   \<and> animationFrame (refreshDecorations (queueRefresh reentrant_renderer)) = Some 0
   \<and> frameCallbacks (refreshDecorations (queueRefresh reentrant_renderer)) = [0]
   \<and> frameCallbacks (animationFrameFires (queueRefresh reentrant_renderer)) = []
   \<and> length (frameCallbacks (queueRefresh (animationFrameFires (queueRefresh reentrant_renderer)))) = 1"
proof -
  have h1: "one_token (queueRefresh reentrant_renderer)"
    by (simp add: one_token_def queueRefresh_def reentrant_renderer_def new_renderer_def)
  have h2: "animationFrame (queueRefresh reentrant_renderer) \<noteq> None"
    by (simp add: queueRefresh_def)
  have a: "animationFrame (queueRefresh reentrant_renderer) = Some 0"
    by (simp add: queueRefresh_def reentrant_renderer_def new_renderer_def)
  have f: "frameCallbacks (queueRefresh reentrant_renderer) = [0]"
    by (simp add: queueRefresh_def reentrant_renderer_def new_renderer_def)
  show ?thesis
    using h1 h2 reentrant_request_absorbed [OF h1 h2] by (simp add: a f)
qed

subsection \<open>Element creation\<close>

text \<open>
  C2, as stated, fails: for a width and a height of zero cells \<^verbatim>\<open>_createElement\<close>
  writes the size of one cell, \<open>9\<close> by \<open>17\<close> pixels here, where \<^verbatim>\<open>??\<close> would give zero.
\<close>

theorem zero_size_is_one_cell:
  "options_width (options (decorationStore zero_size_renderer 0)) = Some 0
   \<and> options_height (options (decorationStore zero_size_renderer 0)) = Some 0
   \<and> style_width (elementStore (snd (createElement 0 zero_size_renderer))
        (fst (createElement 0 zero_size_renderer))) = Some 9
   \<and> style_height (elementStore (snd (createElement 0 zero_size_renderer))
        (fst (createElement 0 zero_size_renderer))) = Some 17
   \<and> js_nullish (options_width (options (decorationStore zero_size_renderer 0))) 1
        * actualCellWidth (renderService zero_size_renderer) = 0
   \<and> js_nullish (options_height (options (decorationStore zero_size_renderer 0))) 1
        * actualCellHeight (renderService zero_size_renderer) = 0"
  by (simp add: zero_size_renderer_def example_defs operation_defs)

text \<open>
  C2, amended. Element creation computes a pixel width of \<open>w\<close> times the cell width,
  where \<open>w\<close> is the width option, or \<open>1\<close> when the option is absent or zero, and a pixel
  height likewise: an explicit zero is treated like an absent option. The element gets
  that width and that height whenever they are not negative; a negative length is
  refused by the style and the property of the new element stays unset.
\<close>

theorem createElement_size:
  "style_width (elementStore (snd (createElement d s)) (fst (createElement d s)))
     = (let w = (case options_width (options (decorationStore s d)) of
                   None \<Rightarrow> 1 | Some w \<Rightarrow> if w = 0 then 1 else w)
                * actualCellWidth (renderService s)
        in if w < 0 then None else Some w)
   \<and> style_height (elementStore (snd (createElement d s)) (fst (createElement d s)))
     = (let h = (case options_height (options (decorationStore s d)) of
                   None \<Rightarrow> 1 | Some h \<Rightarrow> if h = 0 then 1 else h)
                * actualCellHeight (renderService s)
        in if h < 0 then None else Some h)"
  by (simp add: createElement_def Let_def js_or_def set_nonnegative_length_def
        document_createElement_def)

theorem createElement_size_witness:
  "style_width (elementStore (snd (createElement 0 example_renderer))
        (fst (createElement 0 example_renderer))) = Some 9
   \<and> style_height (elementStore (snd (createElement 0 example_renderer))
        (fst (createElement 0 example_renderer))) = Some 17
   \<and> options_width (options (decorationStore negative_size_renderer 0)) = Some (- 2)
   \<and> options_height (options (decorationStore negative_size_renderer 0)) = Some (- 3)
   \<and> style_width (elementStore (snd (createElement 0 negative_size_renderer))
        (fst (createElement 0 negative_size_renderer))) = None
   \<and> style_height (elementStore (snd (createElement 0 negative_size_renderer))
        (fst (createElement 0 negative_size_renderer))) = None"
proof -
  have p: "options_width (options (decorationStore example_renderer 0)) = None"
    "options_height (options (decorationStore example_renderer 0)) = None"
    "actualCellWidth (renderService example_renderer) = 9"
    "actualCellHeight (renderService example_renderer) = 17"
    by (simp_all add: example_defs)
  have n: "options_width (options (decorationStore negative_size_renderer 0)) = Some (- 2)"
    "options_height (options (decorationStore negative_size_renderer 0)) = Some (- 3)"
    "actualCellWidth (renderService negative_size_renderer) = 9"
    "actualCellHeight (renderService negative_size_renderer) = 17"
    by (simp_all add: negative_size_renderer_def example_defs)
  show ?thesis
    using createElement_size [of 0 example_renderer]
      createElement_size [of 0 negative_size_renderer]
    by (simp add: p n)
qed

text \<open>
  C3 fails on the code. \<^verbatim>\<open>_createElement\<close> hides the element of a decoration whose
  column lies beyond the buffer's columns, but \<^verbatim>\<open>_renderDecoration\<close> refreshes the
  style right after creating the element, and \<^verbatim>\<open>_refreshStyle\<close> shows every element
  whose line is in the viewport. After the very pass that created it, and after the
  next one, the element is displayed.
\<close>

theorem column_overflow_shown:
  "options_x (options (decorationStore overflow_renderer 0)) = Some 5
   \<and> cols (bufferService overflow_renderer) = 3
   \<and> style_display (elementStore (snd (createElement 0 overflow_renderer))
        (fst (createElement 0 overflow_renderer))) = DisplayNone
   \<and> decorationElements (refreshDecorations overflow_renderer) 0 = Some 0
   \<and> style_display (elementStore (refreshDecorations overflow_renderer) 0) = DisplayBlock
   \<and> style_display (elementStore (refreshDecorations (refreshDecorations overflow_renderer)) 0)
        = DisplayBlock"
  by (simp add: overflow_renderer_def example_defs operation_defs)

subsection \<open>Removal\<close>

lemma renderDecoration_unmapped:
  assumes "decorationElements s d = None"
  shows "decorationElements (renderDecoration d s) = (decorationElements s)(d \<mapsto> nextElement s)"
    and "container (renderDecoration d s)
           = removeAll (nextElement s) (container s) @ [nextElement s]"
    and "element (decorationStore (renderDecoration d s) d) = Some (nextElement s)"
    and "nextElement (renderDecoration d s) = Suc (nextElement s)"
  using assms by (simp_all add: renderDecoration_def Let_def split_beta)

lemma renderDecoration_mapped:
  assumes "decorationElements s d = Some e"
  shows "decorationElements (renderDecoration d s) = decorationElements s"
    and "container (renderDecoration d s) = container s"
    and "decorationStore (renderDecoration d s) = decorationStore s"
    and "markerStore (renderDecoration d s) = markerStore s"
    and "nextElement (renderDecoration d s) = nextElement s"
  using assms by (simp_all add: renderDecoration_def)

lemma removeDecoration_map:
  "decorationElements (removeDecoration d s) = (decorationElements s)(d := None)"
  by (simp add: removeDecoration_def Let_def split: option.splits)

lemma removeDecoration_container:
  "container (removeDecoration d s)
     = (case decorationElements s d of
          None \<Rightarrow> container s
        | Some e \<Rightarrow> removeAll e (container s))"
  by (simp add: removeDecoration_def Let_def split: option.splits)

text \<open>
  C8. Removing a decoration that has no entry in the map changes nothing, whether the
  removal comes from the decoration's disposal listener or from the registry's
  notification; so a second removal after a first is a no-op.
\<close>

theorem removeDecoration_unmapped:
  assumes "decorationElements s d = None"
  shows "removeDecoration d s = s
       \<and> handle (DecorationRemoved d) s = s
       \<and> removeDecoration d (removeDecoration d t) = removeDecoration d t"
  using assms by (simp add: removeDecoration_def Let_def fun_upd_idem)

theorem removeDecoration_unmapped_witness:
  "decorationElements example_renderer 0 = None
   \<and> removeDecoration 0 example_renderer = example_renderer
   \<and> removeDecoration 0 (removeDecoration 0 (renderDecoration 0 example_renderer))
       = removeDecoration 0 (renderDecoration 0 example_renderer)"
proof -
  have h: "decorationElements example_renderer 0 = None"
    by (simp add: example_renderer_def new_renderer_def)
  show ?thesis
    using h removeDecoration_unmapped [OF h, of "renderDecoration 0 example_renderer"]
    by simp
qed

text \<open>
  C10. Removal does not touch the decoration objects. A decoration bound by a refresh
  pass and then removed loses its map entry, and its element leaves the container, but
  its \<^verbatim>\<open>element\<close> slot still refers to the detached element.
\<close>

theorem removal_keeps_element_slot:
  assumes "decorationElements s d = None"
  shows "decorationStore (removeDecoration d' t) = decorationStore t
       \<and> decorationElements (renderDecoration d s) d = Some (nextElement s)
       \<and> nextElement s \<in> set (container (renderDecoration d s))
       \<and> element (decorationStore (renderDecoration d s) d) = Some (nextElement s)
       \<and> decorationElements (removeDecoration d (renderDecoration d s)) d = None
       \<and> nextElement s \<notin> set (container (removeDecoration d (renderDecoration d s)))
       \<and> element (decorationStore (removeDecoration d (renderDecoration d s)) d)
           = Some (nextElement s)"
  using renderDecoration_unmapped [OF assms]
  by (simp add: removeDecoration_map removeDecoration_container)

theorem removal_keeps_element_slot_witness:
  "decorationElements example_renderer 1 = None
   \<and> decorationElements (renderDecoration 1 example_renderer) 1 = Some 0
   \<and> decorationElements (removeDecoration 1 (renderDecoration 1 example_renderer)) 1 = None
   \<and> container (removeDecoration 1 (renderDecoration 1 example_renderer)) = []
   \<and> element (decorationStore (removeDecoration 1 (renderDecoration 1 example_renderer)) 1)
       = Some 0"
proof -
  have h: "decorationElements example_renderer 1 = None"
    by (simp add: example_renderer_def new_renderer_def)
  have n: "nextElement example_renderer = 0"
    by (simp add: example_renderer_def new_renderer_def)
  have c: "container (removeDecoration 1 (renderDecoration 1 example_renderer)) = []"
    using renderDecoration_unmapped(1,2) [OF h]
    by (simp add: removeDecoration_container n example_renderer_def new_renderer_def)
  show ?thesis
    using h c removal_keeps_element_slot [OF h] by (simp add: n)
qed

subsection \<open>The map after a refresh pass\<close>

lemma renderDecoration_dom:
  "dom (decorationElements (renderDecoration d s)) = insert d (dom (decorationElements s))"
proof (cases "decorationElements s d")
  case None
  then show ?thesis by (simp add: renderDecoration_unmapped(1))
next
  case (Some e)
  then show ?thesis by (auto simp add: renderDecoration_mapped(1))
qed

lemma fold_renderDecoration_dom:
  "dom (decorationElements (fold renderDecoration ds s)) = dom (decorationElements s) \<union> set ds"
  by (induction ds arbitrary: s) (simp_all add: renderDecoration_dom)

lemma refreshDecorations_dom:
  "dom (decorationElements (refreshDecorations s))
     = dom (decorationElements s) \<union> set (decorations s)"
  by (simp add: refreshDecorations_def fold_renderDecoration_dom)

lemma refreshDecorations_decorations [simp]:
  "decorations (refreshDecorations s) = decorations s"
  by (simp add: refreshDecorations_def)

text \<open>
  C5. The removal path keeps the map within the registry's decorations: an entry is
  deleted in the same call that learns of the removal. From such a state, after a refresh
  pass a decoration has an entry in the map if and only if it is one of the registry's
  decorations. A registration notification adds no entry, it only requests a refresh;
  the pass adds the entry; a removal deletes the entry of its decoration and no other.
\<close>

theorem map_matches_registry:
  assumes "dom (decorationElements s) \<subseteq> set (decorations s)"
  shows "(\<forall>d. (decorationElements (refreshDecorations s) d \<noteq> None)
               = (d \<in> set (decorations (refreshDecorations s))))
       \<and> decorationElements (handle DecorationRegistered s) = decorationElements s
       \<and> decorationElements (handle (DecorationRemoved d') s)
           = (decorationElements s)(d' := None)
       \<and> dom (decorationElements (handle (DecorationRemoved d') s))
           \<subseteq> set (decorations (handle (DecorationRemoved d') s)) - {d'}"
proof -
  have "dom (decorationElements (refreshDecorations s)) = set (decorations s)"
    using assms by (auto simp add: refreshDecorations_dom)
  then have "\<forall>d. (decorationElements (refreshDecorations s) d \<noteq> None)
               = (d \<in> set (decorations (refreshDecorations s)))"
    by (auto simp add: dom_def)
  moreover have "dom (decorationElements (handle (DecorationRemoved d') s))
           \<subseteq> set (decorations (handle (DecorationRemoved d') s)) - {d'}"
    using assms by (auto simp add: removeDecoration_map split: if_splits)
  ultimately show ?thesis by (simp add: removeDecoration_map)
qed


theorem map_matches_registry_witness:
  "dom (decorationElements example_renderer) \<subseteq> set (decorations example_renderer)
   \<and> decorationElements (refreshDecorations example_renderer) 0 \<noteq> None
   \<and> decorationElements (refreshDecorations example_renderer) 1 \<noteq> None
   \<and> decorationElements (refreshDecorations example_renderer) 2 = None"
proof -
  have h: "dom (decorationElements example_renderer) \<subseteq> set (decorations example_renderer)"
    by (simp add: example_renderer_def new_renderer_def)
  have l: "decorations example_renderer = [0, 1]"
    by (simp add: example_renderer_def new_renderer_def)
  have "\<forall>d. (decorationElements (refreshDecorations example_renderer) d \<noteq> None)
               = (d \<in> set (decorations (refreshDecorations example_renderer)))"
    using map_matches_registry [OF h] by blast
  then have "(decorationElements (refreshDecorations example_renderer) d \<noteq> None)
               = (d \<in> {0, 1})" for d
    by (simp add: l)
  from this [of 0] this [of 1] this [of 2] h show ?thesis by simp
qed

subsection \<open>Styles after a refresh pass\<close>

lemma refreshStyle_refreshed: "style_refreshed (refreshStyle d e s) d e"
  by (simp add: style_refreshed_def viewportLine_def refreshStyle_def Let_def)

lemma style_refreshed_fire [simp]:
  "style_refreshed (onRenderEmitter_fire d e s) d' e' = style_refreshed s d' e'"
  by (simp add: style_refreshed_def viewportLine_def)

lemma renderDecoration_refreshed:
  "\<exists>e. decorationElements (renderDecoration d s) d = Some e
       \<and> style_refreshed (renderDecoration d s) d e"
proof (cases "decorationElements s d")
  case None
  then show ?thesis
    by (simp add: renderDecoration_def Let_def split_beta refreshStyle_refreshed)
next
  case (Some e)
  then show ?thesis
    by (simp add: renderDecoration_def refreshStyle_refreshed)
qed

lemma renderDecoration_viewportLine [simp]:
  "viewportLine (renderDecoration d s) d' = viewportLine s d'"
  by (cases "decorationElements s d")
     (simp_all add: viewportLine_def renderDecoration_def Let_def split_beta)

lemma renderDecoration_elementStore_other:
  assumes "elements_distinct s" and "d' \<noteq> d" and "decorationElements s d' = Some e'"
  shows "elementStore (renderDecoration d s) e' = elementStore s e'"
proof (cases "decorationElements s d")
  case None
  from assms(1,3) have "e' \<noteq> nextElement s"
    by (auto simp add: elements_distinct_def)
  with None show ?thesis
    by (simp add: renderDecoration_def Let_def split_beta refreshStyle_other
          createElement_other)
next
  case (Some e)
  with assms have "e' \<noteq> e"
    by (auto simp add: elements_distinct_def)
  with Some show ?thesis
    by (simp add: renderDecoration_def refreshStyle_other)
qed

lemma renderDecoration_keeps_entry:
  assumes "decorationElements s d' = Some e'"
  shows "decorationElements (renderDecoration d s) d' = Some e'"
proof (cases "decorationElements s d")
  case None
  with assms have "d' \<noteq> d" by auto
  with None assms show ?thesis by (simp add: renderDecoration_unmapped(1))
next
  case (Some e)
  with assms show ?thesis by (simp add: renderDecoration_mapped(1))
qed

lemma renderDecoration_refreshed_other:
  assumes "elements_distinct s" and "d' \<noteq> d" and "decorationElements s d' = Some e'"
    and "style_refreshed s d' e'"
  shows "style_refreshed (renderDecoration d s) d' e'"
  using assms(4) renderDecoration_elementStore_other [OF assms(1-3)]
  by (simp add: style_refreshed_def)

lemma elements_distinct_renderDecoration:
  assumes "elements_distinct s"
  shows "elements_distinct (renderDecoration d s)"
proof (cases "decorationElements s d")
  case None
  from assms have lt: "\<And>x e. decorationElements s x = Some e \<Longrightarrow> e < nextElement s"
    and inj: "\<And>x y e. decorationElements s x = Some e \<Longrightarrow> decorationElements s y = Some e
                \<Longrightarrow> x = y"
    by (auto simp add: elements_distinct_def)
  show ?thesis
    unfolding elements_distinct_def renderDecoration_unmapped(1,4) [OF None]
    using lt inj by (auto simp add: less_Suc_eq split: if_splits)
next
  case (Some e)
  with assms show ?thesis
    by (simp add: elements_distinct_def renderDecoration_mapped(1,5))
qed

text \<open>
  The loop of the pass: every decoration it renders, and every decoration whose element
  carried the refreshed style before, carries it afterwards.
\<close>

lemma fold_renderDecoration_refreshed:
  assumes "elements_distinct s"
    and "d \<in> set ds \<or> (\<exists>e. decorationElements s d = Some e \<and> style_refreshed s d e)"
  shows "\<exists>e. decorationElements (fold renderDecoration ds s) d = Some e
            \<and> style_refreshed (fold renderDecoration ds s) d e"
  using assms
proof (induction ds arbitrary: s)
  case Nil
  then show ?case by simp
next
  case (Cons a ds)
  have inv: "elements_distinct (renderDecoration a s)"
    using Cons.prems(1) by (rule elements_distinct_renderDecoration)
  have "d \<in> set ds \<or> (\<exists>e. decorationElements (renderDecoration a s) d = Some e
                           \<and> style_refreshed (renderDecoration a s) d e)"
  proof (cases "d = a")
    case True
    then show ?thesis using renderDecoration_refreshed [of a s] by simp
  next
    case False
    show ?thesis
    proof (cases "d \<in> set ds")
      case True
      then show ?thesis by simp
    next
      case notin: False
      with Cons.prems(2) \<open>d \<noteq> a\<close> obtain e
        where e: "decorationElements s d = Some e" "style_refreshed s d e" by auto
      have "decorationElements (renderDecoration a s) d = Some e"
        using e(1) by (rule renderDecoration_keeps_entry)
      moreover have "style_refreshed (renderDecoration a s) d e"
        using Cons.prems(1) \<open>d \<noteq> a\<close> e by (rule renderDecoration_refreshed_other)
      ultimately show ?thesis by simp
    qed
  qed
  from Cons.IH [OF inv this] show ?case by simp
qed

lemma refreshDecorations_viewportLine [simp]:
  "viewportLine (refreshDecorations s) d = viewportLine s d"
proof -
  have "viewportLine (fold renderDecoration ds t) d = viewportLine t d" for ds t
    by (induction ds arbitrary: t) simp_all
  then show ?thesis by (simp add: refreshDecorations_def viewportLine_def)
qed

lemma refreshDecorations_refreshed:
  assumes "elements_distinct s" and "d \<in> set (decorations s)"
  shows "\<exists>e. decorationElements (refreshDecorations s) d = Some e
            \<and> style_refreshed (refreshDecorations s) d e"
proof -
  have "elements_distinct (s\<lparr>refreshCount := Suc (refreshCount s)\<rparr>)"
    using assms(1) by (simp add: elements_distinct_def)
  then show ?thesis
    unfolding refreshDecorations_def
    by (rule fold_renderDecoration_refreshed) (simp add: assms(2))
qed

text \<open>
  C6. After a refresh pass every decoration \<open>d\<close> of the registry is bound to an element.
  With \<open>line\<close> the marker's line minus the scroll offset: when \<open>line\<close> is negative or
  at least the number of rows, the element is hidden; otherwise its top is \<open>line\<close> times
  the cell height, and it is hidden when the alternate-buffer flag is set and shown as a
  block when it is not.
\<close>

theorem refresh_pass_style:
  assumes "elements_distinct s" and "d \<in> set (decorations s)"
  shows "\<exists>e. decorationElements (refreshDecorations s) d = Some e
     \<and> (let ln = line (markerStore s (marker (decorationStore s d))) - ydisp (bufferService s);
            el = elementStore (refreshDecorations s) e
        in if ln < 0 \<or> ln \<ge> rows (bufferService s)
           then style_display el = DisplayNone
           else style_top el = Some (ln * actualCellHeight (renderService s))
              \<and> style_display el = (if altBufferIsActive s then DisplayNone else DisplayBlock))"
proof -
  from refreshDecorations_refreshed [OF assms] obtain e
    where e: "decorationElements (refreshDecorations s) d = Some e"
      "style_refreshed (refreshDecorations s) d e" by blast
  have v: "viewportLine s d
             = line (markerStore s (marker (decorationStore s d))) - ydisp (bufferService s)"
    by (simp add: viewportLine_def)
  have f: "rows (bufferService (refreshDecorations s)) = rows (bufferService s)"
    "actualCellHeight (renderService (refreshDecorations s)) = actualCellHeight (renderService s)"
    "altBufferIsActive (refreshDecorations s) = altBufferIsActive s"
    by (simp_all add: refreshDecorations_def)
  from e(2) have "let ln = line (markerStore s (marker (decorationStore s d))) - ydisp (bufferService s);
            el = elementStore (refreshDecorations s) e
        in if ln < 0 \<or> ln \<ge> rows (bufferService s)
           then style_display el = DisplayNone
           else style_top el = Some (ln * actualCellHeight (renderService s))
              \<and> style_display el = (if altBufferIsActive s then DisplayNone else DisplayBlock)"
    unfolding style_refreshed_def refreshDecorations_viewportLine v f Let_def .
  with e(1) show ?thesis by blast
qed


theorem refresh_pass_style_witness:
  "elements_distinct example_renderer \<and> 0 \<in> set (decorations example_renderer)
   \<and> (\<exists>e. decorationElements (refreshDecorations example_renderer) 0 = Some e
          \<and> style_top (elementStore (refreshDecorations example_renderer) e) = Some 34
          \<and> style_display (elementStore (refreshDecorations example_renderer) e) = DisplayBlock)"
proof -
  have h1: "elements_distinct example_renderer"
    by (simp add: elements_distinct_def example_renderer_def new_renderer_def)
  have h2: "0 \<in> set (decorations example_renderer)"
    by (simp add: example_renderer_def new_renderer_def)
  have v: "line (markerStore example_renderer (marker (decorationStore example_renderer 0)))
             - ydisp (bufferService example_renderer) = 2"
    "rows (bufferService example_renderer) = 24"
    "actualCellHeight (renderService example_renderer) = 17"
    "\<not> altBufferIsActive example_renderer"
    by (simp_all add: example_defs)
  show ?thesis
    using h1 h2 refresh_pass_style [OF h1 h2]
    by (simp add: v Let_def)
qed

subsection \<open>The alternate buffer\<close>

lemma elements_distinct_fold_renderDecoration:
  "elements_distinct s \<Longrightarrow> elements_distinct (fold renderDecoration ds s)"
  by (induction ds arbitrary: s) (simp_all add: elements_distinct_renderDecoration)

lemma elements_distinct_refreshDecorations:
  assumes "elements_distinct s"
  shows "elements_distinct (refreshDecorations s)"
proof -
  have "elements_distinct (s\<lparr>refreshCount := Suc (refreshCount s)\<rparr>)"
    using assms by (simp add: elements_distinct_def)
  then show ?thesis
    unfolding refreshDecorations_def by (rule elements_distinct_fold_renderDecoration)
qed

text \<open>A pass over decorations that all have an element creates nothing and moves nothing.\<close>

lemma fold_renderDecoration_all_mapped:
  assumes "set ds \<subseteq> dom (decorationElements s)"
  shows "nextElement (fold renderDecoration ds s) = nextElement s
       \<and> decorationElements (fold renderDecoration ds s) = decorationElements s
       \<and> container (fold renderDecoration ds s) = container s"
  using assms
proof (induction ds arbitrary: s)
  case Nil
  show ?case by simp
next
  case (Cons d ds)
  from Cons.prems obtain e where e: "decorationElements s d = Some e" by auto
  note m = renderDecoration_mapped [OF e]
  from Cons.prems have "set ds \<subseteq> dom (decorationElements (renderDecoration d s))"
    by (simp add: m(1))
  from Cons.IH [OF this] show ?case by (simp add: m)
qed

lemma refreshDecorations_all_mapped:
  assumes "set (decorations s) \<subseteq> dom (decorationElements s)"
  shows "nextElement (refreshDecorations s) = nextElement s
       \<and> decorationElements (refreshDecorations s) = decorationElements s
       \<and> container (refreshDecorations s) = container s"
  using fold_renderDecoration_all_mapped
    [of "decorations s" "s\<lparr>refreshCount := Suc (refreshCount s)\<rparr>"] assms
  by (simp add: refreshDecorations_def)

lemma refreshDecorations_altBufferIsActive [simp]:
  "altBufferIsActive (refreshDecorations s) = altBufferIsActive s"
  by (simp add: refreshDecorations_def)

lemma animationFrameFires_altBufferIsActive [simp]:
  "altBufferIsActive (animationFrameFires s) = altBufferIsActive s"
proof -
  have "altBufferIsActive (fold (\<lambda>h. frameCallback) hs t) = altBufferIsActive t"
    for hs :: "nat list" and t
    by (induction hs arbitrary: t) (simp_all add: frameCallback_def)
  then show ?thesis by (simp add: animationFrameFires_def)
qed

text \<open>
  C7. While the alternate-buffer flag is set, a refresh pass hides the element of every
  decoration of the registry, wherever its line is. When the normal buffer is activated
  the handler of the notification clears the flag; the next pass creates no element and
  leaves the map and the container as they were, and it shows the element of every
  decoration whose line is in the viewport, at that line. The handler of the buffer
  activation sets the flag to whether the buffer now shown is the alternate one, in
  either direction; no other notification changes the flag, and a frame and a refresh
  pass leave it as it is.
\<close>

theorem alt_buffer_suppression:
  assumes "elements_distinct s" and "d \<in> set (decorations s)" and "altBufferIsActive s"
  shows "let ln = line (markerStore s (marker (decorationStore s d))) - ydisp (bufferService s);
             s1 = refreshDecorations s;
             s2 = handle BufferActivate
                    (s1\<lparr>bufferService := (bufferService s1)\<lparr>bufferIsAlt := False\<rparr>\<rparr>);
             s3 = refreshDecorations s2
         in (\<exists>e. decorationElements s1 d = Some e
                \<and> style_display (elementStore s1 e) = DisplayNone
                \<and> decorationElements s3 d = Some e
                \<and> (0 \<le> ln \<and> ln < rows (bufferService s) \<longrightarrow>
                     style_display (elementStore s3 e) = DisplayBlock
                   \<and> style_top (elementStore s3 e)
                       = Some (ln * actualCellHeight (renderService s))))
          \<and> nextElement s3 = nextElement s1
          \<and> decorationElements s3 = decorationElements s1
          \<and> container s3 = container s1
          \<and> (\<forall>t. altBufferIsActive (handle BufferActivate t) = bufferIsAlt (bufferService t))
          \<and> (\<forall>ev t. ev \<noteq> BufferActivate \<longrightarrow>
                altBufferIsActive (handle ev t) = altBufferIsActive t)
          \<and> (\<forall>t. altBufferIsActive (animationFrameFires t) = altBufferIsActive t
                \<and> altBufferIsActive (refreshDecorations t) = altBufferIsActive t)"
proof -
  define ln where
    "ln = line (markerStore s (marker (decorationStore s d))) - ydisp (bufferService s)"
  define s1 where "s1 = refreshDecorations s"
  define s2 where
    "s2 = handle BufferActivate (s1\<lparr>bufferService := (bufferService s1)\<lparr>bufferIsAlt := False\<rparr>\<rparr>)"
  define s3 where "s3 = refreshDecorations s2"
  from refreshDecorations_refreshed [OF assms(1,2)] obtain e
    where e: "decorationElements s1 d = Some e" "style_refreshed s1 d e"
    by (auto simp add: s1_def)
  have hidden: "style_display (elementStore s1 e) = DisplayNone"
    using e(2) assms(3) by (simp add: style_refreshed_def s1_def split: if_splits)
  have inv1: "elements_distinct s1"
    using assms(1) by (simp add: s1_def elements_distinct_refreshDecorations)
  have map2: "decorationElements s2 = decorationElements s1"
    and dec2: "decorations s2 = decorations s"
    and flag2: "\<not> altBufferIsActive s2"
    and next2: "nextElement s2 = nextElement s1"
    and cont2: "container s2 = container s1"
    by (simp_all add: s2_def s1_def)
  have inv2: "elements_distinct s2"
    using inv1 by (simp add: elements_distinct_def map2 next2)
  have "set (decorations s) \<subseteq> dom (decorationElements s1)"
    by (simp add: s1_def refreshDecorations_dom)
  then have "set (decorations s2) \<subseteq> dom (decorationElements s2)"
    by (simp add: map2 dec2)
  from refreshDecorations_all_mapped [OF this]
  have same: "nextElement s3 = nextElement s1" "decorationElements s3 = decorationElements s1"
    "container s3 = container s1"
    by (simp_all add: s3_def map2 next2 cont2)
  have "d \<in> set (decorations s2)" using assms(2) by (simp add: dec2)
  from refreshDecorations_refreshed [OF inv2 this] same(2) e(1)
  have r3: "style_refreshed s3 d e" by (simp add: s3_def)
  have "viewportLine s2 d = viewportLine s1 d"
    by (simp add: s2_def viewportLine_def)
  then have "viewportLine s3 d = viewportLine s d"
    by (simp add: s3_def s1_def)
  then have v3: "viewportLine s3 d = ln"
    by (simp add: ln_def viewportLine_def)
  have f3: "rows (bufferService s3) = rows (bufferService s)"
    "actualCellHeight (renderService s3) = actualCellHeight (renderService s)"
    "\<not> altBufferIsActive s3"
    using flag2 by (simp_all add: s3_def s2_def s1_def refreshDecorations_def)
  have shown: "0 \<le> ln \<and> ln < rows (bufferService s) \<longrightarrow>
                 style_display (elementStore s3 e) = DisplayBlock
               \<and> style_top (elementStore s3 e) = Some (ln * actualCellHeight (renderService s))"
    using r3 by (simp add: style_refreshed_def v3 f3)
  have "\<forall>ev t. ev \<noteq> BufferActivate \<longrightarrow>
          altBufferIsActive (handle ev t) = altBufferIsActive t"
  proof (intro allI impI)
    fix ev t
    assume "ev \<noteq> BufferActivate"
    then show "altBufferIsActive (handle ev t) = altBufferIsActive t"
      by (cases ev) simp_all
  qed
  moreover have "\<forall>t. altBufferIsActive (handle BufferActivate t) = bufferIsAlt (bufferService t)"
    by simp
  ultimately show ?thesis using e(1) hidden same shown
    unfolding Let_def ln_def [symmetric] s1_def [symmetric] s2_def [symmetric]
      s3_def [symmetric]
    by simp
qed


theorem alt_buffer_suppression_witness:
  "elements_distinct alt_renderer \<and> 0 \<in> set (decorations alt_renderer)
   \<and> altBufferIsActive alt_renderer
   \<and> \<not> altBufferIsActive
          (example_renderer\<lparr>bufferService := example_buffer\<lparr>bufferIsAlt := True\<rparr>\<rparr>)
   \<and> altBufferIsActive
          (handle BufferActivate
             (example_renderer\<lparr>bufferService := example_buffer\<lparr>bufferIsAlt := True\<rparr>\<rparr>))
   \<and> (\<exists>e. decorationElements (refreshDecorations alt_renderer) 0 = Some e
          \<and> style_display (elementStore (refreshDecorations alt_renderer) e) = DisplayNone
          \<and> style_display
               (elementStore
                  (refreshDecorations
                     (handle BufferActivate
                        ((refreshDecorations alt_renderer)
                           \<lparr>bufferService := (bufferService (refreshDecorations alt_renderer))
                              \<lparr>bufferIsAlt := False\<rparr>\<rparr>))) e) = DisplayBlock)"
proof -
  have h1: "elements_distinct alt_renderer"
    by (simp add: elements_distinct_def alt_renderer_def example_renderer_def new_renderer_def)
  have h2: "0 \<in> set (decorations alt_renderer)"
    by (simp add: alt_renderer_def example_renderer_def new_renderer_def)
  have h3: "altBufferIsActive alt_renderer"
    by (simp add: alt_renderer_def)
  have v: "line (markerStore alt_renderer (marker (decorationStore alt_renderer 0)))
             - ydisp (bufferService alt_renderer) = 2"
    "rows (bufferService alt_renderer) = 24"
    by (simp_all add: alt_renderer_def example_defs)
  have b: "\<not> altBufferIsActive
               (example_renderer\<lparr>bufferService := example_buffer\<lparr>bufferIsAlt := True\<rparr>\<rparr>)"
    by (simp add: example_renderer_def new_renderer_def)
  have a: "altBufferIsActive
             (handle BufferActivate
                (example_renderer\<lparr>bufferService := example_buffer\<lparr>bufferIsAlt := True\<rparr>\<rparr>))"
    by simp
  have "\<exists>e. decorationElements (refreshDecorations alt_renderer) 0 = Some e
          \<and> style_display (elementStore (refreshDecorations alt_renderer) e) = DisplayNone
          \<and> style_display
               (elementStore
                  (refreshDecorations
                     (handle BufferActivate
                        ((refreshDecorations alt_renderer)
                           \<lparr>bufferService := (bufferService (refreshDecorations alt_renderer))
                              \<lparr>bufferIsAlt := False\<rparr>\<rparr>))) e) = DisplayBlock"
    using alt_buffer_suppression [OF h1 h2 h3]
    by (simp add: v Let_def) blast
  with h1 h2 h3 a b show ?thesis by blast
qed

subsection \<open>The removal cascade\<close>

lemma fold_preserves:
  assumes "\<And>x t. P t \<Longrightarrow> P (f x t)" and "P s"
  shows "P (fold f xs s)"
  using assms(2) by (induction xs arbitrary: s) (simp_all add: assms(1))

text \<open>What \<^verbatim>\<open>_renderDecoration\<close> installs when it creates the element.\<close>

lemma renderDecoration_wiring:
  assumes "decorationElements s d = None"
  shows "onDispose (decorationStore (renderDecoration d s) d)
           = onDispose (decorationStore s d) @ [d]"
    and "marker_onDispose (markerStore (renderDecoration d s) (marker (decorationStore s d)))
           = marker_onDispose (markerStore s (marker (decorationStore s d))) @ [d]"
    and "marker (decorationStore (renderDecoration d s) d) = marker (decorationStore s d)"
    and "isDisposed (decorationStore (renderDecoration d s) d) = isDisposed (decorationStore s d)"
    and "disposeFired (decorationStore (renderDecoration d s) d)
           = disposeFired (decorationStore s d)"
    and "marker_isDisposed (markerStore (renderDecoration d s) m)
           = marker_isDisposed (markerStore s m)"
  using assms by (simp_all add: renderDecoration_def Let_def split_beta)

text \<open>
  Once a decoration is mapped to \<open>e\<close>, removals keep this: the entry is still there, or
  it is gone and \<open>e\<close> is no child of the container.
\<close>

lemma removeDecoration_detaches:
  assumes "decorationElements t d = Some e
         \<or> (decorationElements t d = None \<and> e \<notin> set (container t))"
  shows "decorationElements (removeDecoration x t) d = Some e
       \<or> (decorationElements (removeDecoration x t) d = None
          \<and> e \<notin> set (container (removeDecoration x t)))"
  using assms
  by (auto simp add: removeDecoration_map removeDecoration_container split: option.splits)

lemma decoration_dispose_map:
  "decorationElements (decoration_dispose x t)
     = (if isDisposed (decorationStore t x) then decorationElements t
        else (decorationElements
                (fold removeDecoration (onDispose (decorationStore t x)) t))(x := None))"
proof -
  have "decorationElements (fold removeDecoration xs (t\<lparr>decorationStore := f\<rparr>))
          = decorationElements (fold removeDecoration xs t)" for xs f
  proof (induction xs arbitrary: t)
    case Nil
    show ?case by simp
  next
    case (Cons a xs)
    have "removeDecoration a (t\<lparr>decorationStore := f\<rparr>)
            = (removeDecoration a t)\<lparr>decorationStore := f\<rparr>"
      by (simp add: removeDecoration_def Let_def split: option.splits)
    then show ?case using Cons.IH by simp
  qed
  then show ?thesis
    by (simp add: decoration_dispose_def Let_def removeDecoration_map)
qed

lemma decoration_dispose_store:
  "decorationStore (decoration_dispose x t)
     = (if isDisposed (decorationStore t x) then decorationStore t
        else (decorationStore t)
               (x := (decorationStore t x)
                  \<lparr>isDisposed := True,
                   disposeFired := Suc (disposeFired (decorationStore t x))\<rparr>))"
  by (simp add: decoration_dispose_def Let_def)

lemma decoration_dispose_disposed:
  "isDisposed (decorationStore t x) \<Longrightarrow> decoration_dispose x t = t"
  by (simp add: decoration_dispose_def)

lemma decoration_dispose_detaches:
  assumes "decorationElements t d = Some e
         \<or> (decorationElements t d = None \<and> e \<notin> set (container t))"
  shows "decorationElements (decoration_dispose x t) d = Some e
       \<or> (decorationElements (decoration_dispose x t) d = None
          \<and> e \<notin> set (container (decoration_dispose x t)))"
proof (cases "isDisposed (decorationStore t x)")
  case True
  with assms show ?thesis by (simp add: decoration_dispose_disposed)
next
  case False
  let ?P = "\<lambda>u. decorationElements u d = Some e
               \<or> (decorationElements u d = None \<and> e \<notin> set (container u))"
  let ?t1 = "t\<lparr>decorationStore := (decorationStore t)
                 (x := (decorationStore t x)
                    \<lparr>isDisposed := True,
                     disposeFired := Suc (disposeFired (decorationStore t x))\<rparr>)\<rparr>"
  let ?t2 = "fold removeDecoration (onDispose (decorationStore ?t1 x)) ?t1"
  have "?P ?t1" using assms by simp
  then have "?P ?t2"
    by (rule fold_preserves [where P = ?P, rotated]) (rule removeDecoration_detaches)
  then have "?P (?t2\<lparr>decorations := removeAll x (decorations ?t2)\<rparr>)" by simp
  then have "?P (removeDecoration x (?t2\<lparr>decorations := removeAll x (decorations ?t2)\<rparr>))"
    by (rule removeDecoration_detaches)
  moreover have "decoration_dispose x t
      = removeDecoration x (?t2\<lparr>decorations := removeAll x (decorations ?t2)\<rparr>)"
    using False by (simp add: decoration_dispose_def Let_def)
  ultimately show ?thesis by simp
qed

text \<open>
  The disposal signal of \<open>d\<close> along a run of disposals: not yet fired, or fired once
  with \<open>d\<close> disposed and unmapped.
\<close>

lemma decoration_dispose_status:
  assumes "(\<not> isDisposed (decorationStore t d) \<and> disposeFired (decorationStore t d) = n)
         \<or> (isDisposed (decorationStore t d) \<and> disposeFired (decorationStore t d) = Suc n
            \<and> decorationElements t d = None)"
  shows "(\<not> isDisposed (decorationStore (decoration_dispose x t) d)
            \<and> disposeFired (decorationStore (decoration_dispose x t) d) = n)
       \<or> (isDisposed (decorationStore (decoration_dispose x t) d)
            \<and> disposeFired (decorationStore (decoration_dispose x t) d) = Suc n
            \<and> decorationElements (decoration_dispose x t) d = None)"
proof (cases "isDisposed (decorationStore t x)")
  case True
  with assms show ?thesis by (simp add: decoration_dispose_disposed)
next
  case False
  have none: "decorationElements t d = None \<Longrightarrow>
                decorationElements (fold removeDecoration xs t) d = None" for xs
    by (rule fold_preserves [where P = "\<lambda>u. decorationElements u d = None"])
       (simp_all add: removeDecoration_map)
  show ?thesis
  proof (cases "x = d")
    case True
    with False assms show ?thesis
      by (simp add: decoration_dispose_store decoration_dispose_map)
  next
    case neq: False
    with False assms show ?thesis
      by (auto simp add: decoration_dispose_store decoration_dispose_map none)
  qed
qed

lemma decoration_dispose_fires:
  assumes "\<not> isDisposed (decorationStore t d)"
  shows "isDisposed (decorationStore (decoration_dispose d t) d)"
    and "disposeFired (decorationStore (decoration_dispose d t) d)
           = Suc (disposeFired (decorationStore t d))"
    and "decorationElements (decoration_dispose d t) d = None"
  using assms by (simp_all add: decoration_dispose_store decoration_dispose_map)


lemma decoration_dispose_other:
  "x \<noteq> d \<Longrightarrow> decorationStore (decoration_dispose x t) d = decorationStore t d"
  by (simp add: decoration_dispose_store)

lemma fold_decoration_dispose_done:
  assumes "isDisposed (decorationStore t d)" and "disposeFired (decorationStore t d) = k"
    and "decorationElements t d = None"
  shows "isDisposed (decorationStore (fold decoration_dispose xs t) d)
       \<and> disposeFired (decorationStore (fold decoration_dispose xs t) d) = k
       \<and> decorationElements (fold decoration_dispose xs t) d = None"
proof (rule fold_preserves
    [where P = "\<lambda>u. isDisposed (decorationStore u d) \<and> disposeFired (decorationStore u d) = k
                  \<and> decorationElements u d = None"])
  fix x and u :: renderer
  assume u: "isDisposed (decorationStore u d) \<and> disposeFired (decorationStore u d) = k
               \<and> decorationElements u d = None"
  have none: "decorationElements (fold removeDecoration ys u) d = None" for ys
    by (rule fold_preserves [where P = "\<lambda>v. decorationElements v d = None"])
       (simp_all add: removeDecoration_map u)
  show "isDisposed (decorationStore (decoration_dispose x u) d)
      \<and> disposeFired (decorationStore (decoration_dispose x u) d) = k
      \<and> decorationElements (decoration_dispose x u) d = None"
  proof (cases "x = d")
    case True
    with u show ?thesis by (simp add: decoration_dispose_disposed)
  next
    case False
    with u show ?thesis
      by (simp add: decoration_dispose_store decoration_dispose_map none)
  qed
next
  show "isDisposed (decorationStore t d) \<and> disposeFired (decorationStore t d) = k
          \<and> decorationElements t d = None"
    using assms by simp
qed

text \<open>
  A run of disposals that names \<open>d\<close>, however often, fires the disposal signal of an
  undisposed \<open>d\<close> once.
\<close>

lemma fold_decoration_dispose_fires:
  assumes "\<not> isDisposed (decorationStore t d)" and "d \<in> set xs"
  shows "isDisposed (decorationStore (fold decoration_dispose xs t) d)
       \<and> disposeFired (decorationStore (fold decoration_dispose xs t) d)
           = Suc (disposeFired (decorationStore t d))
       \<and> decorationElements (fold decoration_dispose xs t) d = None"
  using assms
proof (induction xs arbitrary: t)
  case Nil
  then show ?case by simp
next
  case (Cons x xs)
  show ?case
  proof (cases "x = d")
    case True
    from decoration_dispose_fires [OF Cons.prems(1)]
    show ?thesis
      using fold_decoration_dispose_done [of "decoration_dispose d t" d _ xs]
      by (simp add: True)
  next
    case False
    then have same: "decorationStore (decoration_dispose x t) d = decorationStore t d"
      by (rule decoration_dispose_other)
    from False Cons.prems have "d \<in> set xs" by simp
    moreover have "\<not> isDisposed (decorationStore (decoration_dispose x t) d)"
      using Cons.prems(1) by (simp add: same)
    ultimately show ?thesis
      using Cons.IH [of "decoration_dispose x t"] by (simp add: same)
  qed
qed

lemma fold_decoration_dispose_detaches:
  assumes "decorationElements t d = Some e
         \<or> (decorationElements t d = None \<and> e \<notin> set (container t))"
  shows "decorationElements (fold decoration_dispose xs t) d = Some e
       \<or> (decorationElements (fold decoration_dispose xs t) d = None
          \<and> e \<notin> set (container (fold decoration_dispose xs t)))"
  by (rule fold_preserves
        [where P = "\<lambda>u. decorationElements u d = Some e
                       \<or> (decorationElements u d = None \<and> e \<notin> set (container u))"])
     (rule decoration_dispose_detaches, assumption, rule assms)

text \<open>The cascade from a marker to the element of a bound decoration.\<close>

lemma marker_dispose_cascade:
  assumes "wired t d e" and "\<not> isDisposed (decorationStore t d)"
    and "\<not> marker_isDisposed (markerStore t (marker (decorationStore t d)))"
  shows "isDisposed (decorationStore (marker_dispose (marker (decorationStore t d)) t) d)"
    and "disposeFired (decorationStore (marker_dispose (marker (decorationStore t d)) t) d)
           = Suc (disposeFired (decorationStore t d))"
    and "decorationElements (marker_dispose (marker (decorationStore t d)) t) d = None"
    and "e \<notin> set (container (marker_dispose (marker (decorationStore t d)) t))"
    and "marker_isDisposed
           (markerStore (marker_dispose (marker (decorationStore t d)) t)
              (marker (decorationStore t d)))"
proof -
  let ?m = "marker (decorationStore t d)"
  let ?t' = "t\<lparr>markerStore := (markerStore t)
                 (?m := (markerStore t ?m)\<lparr>marker_isDisposed := True\<rparr>)\<rparr>"
  let ?L = "marker_onDispose (markerStore t ?m)"
  have eq: "marker_dispose ?m t = fold decoration_dispose ?L ?t'"
    using assms(3) by (simp add: marker_dispose_def Let_def)
  have inL: "d \<in> set ?L" using assms(1) by (simp add: wired_def)
  have fresh: "\<not> isDisposed (decorationStore ?t' d)" using assms(2) by simp
  from fold_decoration_dispose_fires [OF fresh inL]
  have fired: "isDisposed (decorationStore (fold decoration_dispose ?L ?t') d)"
    "disposeFired (decorationStore (fold decoration_dispose ?L ?t') d)
       = Suc (disposeFired (decorationStore t d))"
    "decorationElements (fold decoration_dispose ?L ?t') d = None"
    by simp_all
  have "decorationElements ?t' d = Some e
      \<or> (decorationElements ?t' d = None \<and> e \<notin> set (container ?t'))"
    using assms(1) by (simp add: wired_def)
  from fold_decoration_dispose_detaches [OF this, of ?L] fired(3)
  have gone: "e \<notin> set (container (fold decoration_dispose ?L ?t'))" by simp
  show "isDisposed (decorationStore (marker_dispose ?m t) d)"
    unfolding eq by (rule fired(1))
  show "disposeFired (decorationStore (marker_dispose ?m t) d)
          = Suc (disposeFired (decorationStore t d))"
    unfolding eq by (rule fired(2))
  show "decorationElements (marker_dispose ?m t) d = None"
    unfolding eq by (rule fired(3))
  show "e \<notin> set (container (marker_dispose ?m t))"
    unfolding eq by (rule gone)
  show "marker_isDisposed (markerStore (marker_dispose ?m t) ?m)"
    by (simp add: eq)
qed


text \<open>A refresh pass disposes nothing and moves no decoration to another marker.\<close>

lemma renderDecoration_status [simp]:
  "isDisposed (decorationStore (renderDecoration d' t) d) = isDisposed (decorationStore t d)"
  "disposeFired (decorationStore (renderDecoration d' t) d) = disposeFired (decorationStore t d)"
  "marker (decorationStore (renderDecoration d' t) d) = marker (decorationStore t d)"
  "marker_isDisposed (markerStore (renderDecoration d' t) m) = marker_isDisposed (markerStore t m)"
  by (cases "decorationElements t d'";
      simp add: renderDecoration_def Let_def split_beta)+

lemma fold_renderDecoration_status [simp]:
  "isDisposed (decorationStore (fold renderDecoration ds t) d) = isDisposed (decorationStore t d)"
  "disposeFired (decorationStore (fold renderDecoration ds t) d)
     = disposeFired (decorationStore t d)"
  "marker (decorationStore (fold renderDecoration ds t) d) = marker (decorationStore t d)"
  "marker_isDisposed (markerStore (fold renderDecoration ds t) m)
     = marker_isDisposed (markerStore t m)"
  by (induction ds arbitrary: t; simp)+

lemma refreshDecorations_status [simp]:
  "isDisposed (decorationStore (refreshDecorations t) d) = isDisposed (decorationStore t d)"
  "disposeFired (decorationStore (refreshDecorations t) d) = disposeFired (decorationStore t d)"
  "marker (decorationStore (refreshDecorations t) d) = marker (decorationStore t d)"
  "marker_isDisposed (markerStore (refreshDecorations t) m) = marker_isDisposed (markerStore t m)"
  by (simp_all add: refreshDecorations_def)

lemma wired_renderDecoration_self:
  assumes "decorationElements t d = None"
  shows "wired (renderDecoration d t) d (nextElement t)"
  using renderDecoration_unmapped [OF assms] renderDecoration_wiring(1,2) [OF assms]
  by (simp add: wired_def)

lemma wired_renderDecoration:
  assumes "wired t d e"
  shows "wired (renderDecoration d' t) d e"
proof (cases "decorationElements t d'")
  case None
  with assms have neq: "d' \<noteq> d" by (auto simp add: wired_def)
  from assms have e: "e \<noteq> nextElement t" "e \<in> set (container t)"
    by (auto simp add: wired_def)
  have store: "onDispose (decorationStore (renderDecoration d' t) d)
                 = onDispose (decorationStore t d)"
    using None neq by (simp add: renderDecoration_def Let_def split_beta)
  have listeners: "set (marker_onDispose (markerStore t m))
                     \<subseteq> set (marker_onDispose (markerStore (renderDecoration d' t) m))" for m
    using None by (auto simp add: renderDecoration_def Let_def split_beta)
  show ?thesis
    using assms neq e listeners [of "marker (decorationStore t d)"]
    unfolding wired_def renderDecoration_unmapped(1,2,4) [OF None] store
      renderDecoration_status
    by auto
next
  case (Some e')
  with assms show ?thesis
    by (simp add: wired_def renderDecoration_mapped)
qed

text \<open>
  A pass over a list that holds \<open>d\<close>, started with \<open>d\<close> unbound, ends with \<open>d\<close> bound and
  wired.
\<close>

lemma fold_renderDecoration_wired:
  assumes "decorationElements t d = None \<or> (\<exists>e. wired t d e)"
    and "d \<in> set ds \<or> (\<exists>e. wired t d e)"
  shows "\<exists>e. wired (fold renderDecoration ds t) d e"
  using assms
proof (induction ds arbitrary: t)
  case Nil
  then show ?case by simp
next
  case (Cons a ds)
  have step: "d \<in> set ds \<or> (\<exists>e. wired (renderDecoration a t) d e)"
  proof (cases "\<exists>e. wired t d e")
    case True
    then show ?thesis using wired_renderDecoration by blast
  next
    case False
    with Cons.prems have none: "decorationElements t d = None" and "d \<in> set (a # ds)"
      by auto
    show ?thesis
    proof (cases "a = d")
      case True
      then show ?thesis using wired_renderDecoration_self [OF none] by blast
    next
      case False
      with \<open>d \<in> set (a # ds)\<close> show ?thesis by simp
    qed
  qed
  then have "decorationElements (renderDecoration a t) d = None
           \<or> (\<exists>e. wired (renderDecoration a t) d e)"
  proof
    assume "d \<in> set ds"
    show ?thesis
    proof (cases "\<exists>e. wired (renderDecoration a t) d e")
      case True
      then show ?thesis by simp
    next
      case False
      with step have "d \<in> set ds" by simp
      from False Cons.prems(1) wired_renderDecoration
      have none: "decorationElements t d = None" by blast
      from False wired_renderDecoration_self [OF none] have "a \<noteq> d" by blast
      with none have "decorationElements (renderDecoration a t) d = None"
        by (cases "decorationElements t a")
           (simp_all add: renderDecoration_unmapped(1) renderDecoration_mapped(1))
      then show ?thesis by simp
    qed
  next
    assume "\<exists>e. wired (renderDecoration a t) d e"
    then show ?thesis by simp
  qed
  from Cons.IH [OF this step] show ?case by simp
qed



subsection \<open>The invariants hold along every run\<close>

lemma elements_distinct_shrink:
  assumes "elements_distinct s" and "nextElement t = nextElement s"
    and "\<And>d e. decorationElements t d = Some e \<Longrightarrow> decorationElements s d = Some e"
  shows "elements_distinct t"
  unfolding elements_distinct_def
proof (intro conjI allI impI)
  fix d e
  assume "decorationElements t d = Some e"
  then have "decorationElements s d = Some e" by (rule assms(3))
  with assms(1,2) show "e < nextElement t" by (auto simp add: elements_distinct_def)
next
  fix d d' e
  assume "decorationElements t d = Some e \<and> decorationElements t d' = Some e"
  then have "decorationElements s d = Some e" "decorationElements s d' = Some e"
    by (auto intro: assms(3))
  with assms(1) show "d = d'" by (auto simp add: elements_distinct_def)
qed

text \<open>Removals and disposals only delete entries of the map.\<close>

lemma removeDecoration_shrinks:
  "decorationElements (removeDecoration x s) d = Some e \<Longrightarrow> decorationElements s d = Some e"
  by (simp add: removeDecoration_map split: if_splits)

lemma fold_removeDecoration_shrinks:
  "decorationElements (fold removeDecoration xs s) d = Some e \<Longrightarrow>
     decorationElements s d = Some e"
  by (induction xs arbitrary: s) (auto dest: removeDecoration_shrinks)

lemma decoration_dispose_shrinks:
  "decorationElements (decoration_dispose x s) d = Some e \<Longrightarrow> decorationElements s d = Some e"
  by (auto simp add: decoration_dispose_map split: if_splits dest: fold_removeDecoration_shrinks)

lemma fold_decoration_dispose_shrinks:
  "decorationElements (fold decoration_dispose xs s) d = Some e \<Longrightarrow>
     decorationElements s d = Some e"
  by (induction xs arbitrary: s) (auto dest: decoration_dispose_shrinks)

lemma marker_dispose_shrinks:
  "decorationElements (marker_dispose m s) d = Some e \<Longrightarrow> decorationElements s d = Some e"
  by (auto simp add: marker_dispose_def Let_def split: if_splits
        dest: fold_decoration_dispose_shrinks)

text \<open>A disposed decoration leaves the registry together with its entry.\<close>

lemma decoration_dispose_decorations:
  "decorations (decoration_dispose x s)
     = (if isDisposed (decorationStore s x) then decorations s
        else removeAll x (decorations s))"
  by (simp add: decoration_dispose_def Let_def)

lemma decoration_dispose_registry:
  assumes "dom (decorationElements s) \<subseteq> set (decorations s)"
  shows "dom (decorationElements (decoration_dispose x s))
           \<subseteq> set (decorations (decoration_dispose x s))"
proof
  fix d
  assume "d \<in> dom (decorationElements (decoration_dispose x s))"
  then obtain e where e: "decorationElements (decoration_dispose x s) d = Some e" by auto
  then have "decorationElements s d = Some e" by (rule decoration_dispose_shrinks)
  with assms have live: "d \<in> set (decorations s)" by auto
  show "d \<in> set (decorations (decoration_dispose x s))"
  proof (cases "isDisposed (decorationStore s x)")
    case True
    with live show ?thesis by (simp add: decoration_dispose_decorations)
  next
    case False
    with e have "d \<noteq> x" by (auto simp add: decoration_dispose_map)
    with False live show ?thesis by (simp add: decoration_dispose_decorations)
  qed
qed

lemma marker_dispose_registry:
  assumes "dom (decorationElements s) \<subseteq> set (decorations s)"
  shows "dom (decorationElements (marker_dispose m s)) \<subseteq> set (decorations (marker_dispose m s))"
proof (cases "marker_isDisposed (markerStore s m)")
  case True
  with assms show ?thesis by (simp add: marker_dispose_def)
next
  case False
  let ?P = "\<lambda>u. dom (decorationElements u) \<subseteq> set (decorations u)"
  let ?t = "s\<lparr>markerStore := (markerStore s)
                (m := (markerStore s m)\<lparr>marker_isDisposed := True\<rparr>)\<rparr>"
  have "?P ?t" using assms by simp
  then have "?P (fold decoration_dispose (marker_onDispose (markerStore ?t m)) ?t)"
    by (rule fold_preserves [where P = ?P, rotated]) (rule decoration_dispose_registry)
  with False show ?thesis by (simp add: marker_dispose_def Let_def)
qed

lemma renderer_inv_refreshDecorations:
  assumes "renderer_inv s"
  shows "renderer_inv (refreshDecorations s)"
  using assms
  by (simp add: renderer_inv_def one_token_refreshDecorations
        elements_distinct_refreshDecorations refreshDecorations_dom)

lemma renderer_inv_animationFrameFires:
  assumes "renderer_inv s"
  shows "renderer_inv (animationFrameFires s)"
proof -
  from assms have tok: "one_token s" by (simp add: renderer_inv_def)
  then show ?thesis
  proof (cases rule: one_token_cases)
    case 1
    with assms show ?thesis by (simp add: animationFrameFires_idle)
  next
    case (2 h)
    let ?t = "s\<lparr>frameCallbacks := []\<rparr>"
    have eq: "animationFrameFires s = (refreshDecorations ?t)\<lparr>animationFrame := None\<rparr>"
      using 2(2) by (simp add: animationFrameFires_single frameCallback_def)
    have "elements_distinct ?t" "dom (decorationElements ?t) \<subseteq> set (decorations ?t)"
      using assms by (simp_all add: renderer_inv_def elements_distinct_def)
    then have "elements_distinct (refreshDecorations ?t)"
      "dom (decorationElements (refreshDecorations ?t)) \<subseteq> set (decorations (refreshDecorations ?t))"
      by (simp_all add: elements_distinct_refreshDecorations refreshDecorations_dom)
    then have "elements_distinct (animationFrameFires s)"
      "dom (decorationElements (animationFrameFires s)) \<subseteq> set (decorations (animationFrameFires s))"
      by (simp_all add: eq elements_distinct_def)
    with tok show ?thesis
      by (simp add: renderer_inv_def one_token_animationFrameFires)
  qed
qed

lemma renderer_inv_handle:
  assumes "renderer_inv s"
  shows "renderer_inv (handle ev s)"
proof -
  have q: "renderer_inv (queueRefresh s)"
    using assms by (simp add: renderer_inv_def one_token_queueRefresh elements_distinct_def)
  have "renderer_inv (removeDecoration d s)" for d
  proof -
    have "elements_distinct (removeDecoration d s)"
      using assms
      by (auto simp add: renderer_inv_def intro: elements_distinct_shrink [of s]
            dest: removeDecoration_shrinks)
    moreover have "one_token (removeDecoration d s)"
      using assms by (simp add: renderer_inv_def one_token_def)
    moreover have "dom (decorationElements (removeDecoration d s))
                     \<subseteq> set (decorations (removeDecoration d s))"
      using assms by (auto simp add: renderer_inv_def removeDecoration_map split: if_splits)
    ultimately show ?thesis by (simp add: renderer_inv_def)
  qed
  moreover have "renderer_inv (s\<lparr>altBufferIsActive := b\<rparr>)" for b
    using assms by (simp add: renderer_inv_def one_token_def elements_distinct_def)
  ultimately show ?thesis using q by (cases ev) simp_all
qed

lemma renderer_inv_step:
  assumes "renderer_inv s"
  shows "renderer_inv (step a s)"
proof (cases a)
  case (Notify ev)
  with assms show ?thesis by (simp add: renderer_inv_handle)
next
  case Frame
  with assms show ?thesis by (simp add: renderer_inv_animationFrameFires)
next
  case Refresh
  with assms show ?thesis by (simp add: renderer_inv_refreshDecorations)
next
  case (DisposeDecoration d)
  have "elements_distinct (decoration_dispose d s)"
    using assms
    by (auto simp add: renderer_inv_def intro: elements_distinct_shrink [of s]
          dest: decoration_dispose_shrinks)
  moreover have "one_token (decoration_dispose d s)"
    using assms by (simp add: renderer_inv_def one_token_def)
  ultimately show ?thesis
    using assms DisposeDecoration by (simp add: renderer_inv_def decoration_dispose_registry)
next
  case (DisposeMarker m)
  have "elements_distinct (marker_dispose m s)"
    using assms
    by (auto simp add: renderer_inv_def intro: elements_distinct_shrink [of s]
          dest: marker_dispose_shrinks)
  moreover have "one_token (marker_dispose m s)"
    using assms by (simp add: renderer_inv_def one_token_def)
  ultimately show ?thesis
    using assms DisposeMarker by (simp add: renderer_inv_def marker_dispose_registry)
next
  case (Register d)
  have "renderer_inv (s\<lparr>decorations := decorations s @ [d]\<rparr>)"
    using assms by (auto simp add: renderer_inv_def one_token_def elements_distinct_def)
  then have "renderer_inv (handle DecorationRegistered (s\<lparr>decorations := decorations s @ [d]\<rparr>))"
    by (rule renderer_inv_handle)
  then show ?thesis using Register by simp
next
  case (Environment bs rs)
  with assms show ?thesis
    by (simp add: renderer_inv_def one_token_def elements_distinct_def)
qed

lemma renderer_inv_new: "renderer_inv (new_renderer bs rs ds dstore mstore)"
  by (simp add: renderer_inv_def one_token_def elements_distinct_def new_renderer_def)

text \<open>
  The hypotheses of the theorems above are no restriction on a renderer in use: they
  hold after the constructor and after every sequence of actions.
\<close>

lemma renderer_inv_run: "renderer_inv (fold step acts (new_renderer bs rs ds dstore mstore))"
  by (rule fold_preserves [where P = renderer_inv])
     (rule renderer_inv_step, assumption, rule renderer_inv_new)

end
